theory Spec2Isabelle
  imports Main "HOL-Library.Sublist" "HOL-Library.Char_ord" "HOL-Library.List_Lexorder"
begin

section \<open>JavaScript values as the manifest code sees them\<close>

text \<open>
  The value that \<^verbatim>\<open>JSON.parse\<close> returns, and that the code then reads and mutates: objects
  are association lists in insertion order, \<^verbatim>\<open>undefined\<close> is a value of its own (a property
  can hold it in memory, as \<^verbatim>\<open>{ key: t.Key, value: t.Value }\<close> does when \<^verbatim>\<open>t\<close> has no such
  fields). A number is kept as the string the runtime prints for it (\<^verbatim>\<open>String(n)\<close>, the same
  for two numbers exactly when they are equal): the code never computes with a number, it
  only tests one for truthiness and may print one in a message. The engine lists the integer-like keys of an object first; nothing
  here depends on the order in which the values of an object are visited, each being
  treated on its own.
\<close>

datatype json =
    JUndefined
  | JNull
  | JBool bool
  | JNum string
  | JStr string
  | JArr "json list"
  | JObj "(string \<times> json) list"

datatype error =
    TypeError       \<comment> \<open>the runtime's: a property read on null/undefined, a call of a non-function, a for-of over a non-iterable\<close>
  | SyntaxError     \<comment> \<open>\<^verbatim>\<open>JSON.parse\<close> on text that is not JSON\<close>
  | IOError         \<comment> \<open>\<^verbatim>\<open>fs.readFileSync\<close> on a path that holds no file\<close>
  | Error string    \<comment> \<open>\<^verbatim>\<open>throw new Error(message)\<close>\<close>

text \<open>\<^verbatim>\<open>v.name\<close> for the property names the code reads (\<^verbatim>\<open>artifacts\<close>, \<^verbatim>\<open>metadata\<close>, \<^verbatim>\<open>type\<close>,
  \<^verbatim>\<open>data\<close>, \<^verbatim>\<open>Key\<close>, \<^verbatim>\<open>Value\<close>, \<^verbatim>\<open>version\<close>): none of them is on a prototype, so only an object
  can hold one; reading a property of null or undefined throws.\<close>

fun jsGet :: "json \<Rightarrow> string \<Rightarrow> json" where
  "jsGet (JObj ps) k = (case map_of ps k of None \<Rightarrow> JUndefined | Some v \<Rightarrow> v)"
| "jsGet _ k = JUndefined"

fun getProp :: "json \<Rightarrow> string \<Rightarrow> error + json" where
  "getProp JUndefined k = Inl TypeError"
| "getProp JNull k = Inl TypeError"
| "getProp v k = Inr (jsGet v k)"

fun truthy :: "json \<Rightarrow> bool" where
  "truthy JUndefined = False"
| "truthy JNull = False"
| "truthy (JBool b) = b"
| "truthy (JNum n) = (n \<noteq> ''0'' \<and> n \<noteq> ''NaN'')"
| "truthy (JStr s) = (s \<noteq> [])"
| "truthy (JArr xs) = True"
| "truthy (JObj ps) = True"

text \<open>\<^verbatim>\<open>o.k = v\<close> on an object: the property keeps its place when it exists, and is appended
  otherwise.\<close>

fun setProp :: "(string \<times> json) list \<Rightarrow> string \<Rightarrow> json \<Rightarrow> (string \<times> json) list" where
  "setProp [] k v = [(k, v)]"
| "setProp ((k', v') # ps) k v = (if k' = k then (k, v) # ps else (k', v') # setProp ps k v)"

text \<open>A loop body run over a list of values, each of which it may mutate: the first throw ends
  the loop.\<close>

fun forEach :: "('a \<Rightarrow> error + 'b) \<Rightarrow> 'a list \<Rightarrow> error + 'b list" where
  "forEach f [] = Inr []"
| "forEach f (x # xs) =
     (case f x of Inl e \<Rightarrow> Inl e
      | Inr y \<Rightarrow> (case forEach f xs of Inl e \<Rightarrow> Inl e | Inr ys \<Rightarrow> Inr (y # ys)))"

text \<open>\<^verbatim>\<open>for (const x of Object.values(c || [])) body(x)\<close>, where the body mutates \<^verbatim>\<open>x\<close> in
  place: the container comes back with its values updated. A falsy container gives the empty
  array; an object gives its property values, an array its elements, a string its characters
  (primitives, which no body can change); a number or a boolean has no own properties.\<close>

fun forValues :: "(json \<Rightarrow> error + json) \<Rightarrow> json \<Rightarrow> error + json" where
  "forValues f (JObj ps) =
     (case forEach (\<lambda>(k, v). case f v of Inl e \<Rightarrow> Inl e | Inr v' \<Rightarrow> Inr (k, v')) ps of
        Inl e \<Rightarrow> Inl e | Inr ps' \<Rightarrow> Inr (JObj ps'))"
| "forValues f (JArr xs) =
     (case forEach f xs of Inl e \<Rightarrow> Inl e | Inr xs' \<Rightarrow> Inr (JArr xs'))"
| "forValues f (JStr s) =
     (case forEach f (map (\<lambda>c. JStr [c]) s) of Inl e \<Rightarrow> Inl e | Inr _ \<Rightarrow> Inr (JStr s))"
| "forValues f v = Inr v"

text \<open>\<^verbatim>\<open>for (const x of c) body(x)\<close>: arrays and strings are iterable, nothing else that JSON
  holds is.\<close>

fun forOf :: "(json \<Rightarrow> error + json) \<Rightarrow> json \<Rightarrow> error + json" where
  "forOf f (JArr xs) =
     (case forEach f xs of Inl e \<Rightarrow> Inl e | Inr xs' \<Rightarrow> Inr (JArr xs'))"
| "forOf f (JStr s) =
     (case forEach f (map (\<lambda>c. JStr [c]) s) of Inl e \<Rightarrow> Inl e | Inr _ \<Rightarrow> Inr (JStr s))"
| "forOf f v = Inl TypeError"

section \<open>What the build embeds and the libraries the code calls\<close>

text \<open>
  The parts of \<^verbatim>\<open>Manifest\<close>'s surroundings that are not in the source file: the two
  discriminator strings (\<^verbatim>\<open>assembly.ArtifactType.AWS_CLOUDFORMATION_STACK\<close> and
  \<^verbatim>\<open>ArtifactMetadataEntryType.STACK_TAGS\<close>), the version of
  \<^verbatim>\<open>cloud-assembly.version.json\<close>, the \<^verbatim>\<open>semver\<close> package (\<^verbatim>\<open>valid\<close> gives the normalised
  version string or null, \<^verbatim>\<open>gt\<close> compares two of them) and the \<^verbatim>\<open>jsonschema\<close> validator run
  on \<^verbatim>\<open>Manifest.schema\<close> with the options of \<^verbatim>\<open>_validate\<close> (the rendered errors of its result,
  none when the result is valid).
\<close>

record env =
  AWS_CLOUDFORMATION_STACK :: string
  STACK_TAGS :: string
  version :: string
  semver_valid :: "json \<Rightarrow> string option"
  semver_gt :: "string \<Rightarrow> string \<Rightarrow> bool"
  schema_errors :: "json \<Rightarrow> string list"

section \<open>The legacy shape normaliser\<close>

text \<open>The callback of \<^verbatim>\<open>data.map\<close>: \<^verbatim>\<open>(t) => ({ key: t.Key, value: t.Value })\<close>.\<close>

definition patchTag :: "json \<Rightarrow> error + json" where
  "patchTag t =
     (case getProp t ''Key'' of Inl e \<Rightarrow> Inl e
      | Inr k \<Rightarrow> (case getProp t ''Value'' of Inl e \<Rightarrow> Inl e
          | Inr v \<Rightarrow> Inr (JObj [(''key'', k), (''value'', v)])))"

text \<open>\<^verbatim>\<open>metadataAny.data.map(...)\<close>: only an array has a \<^verbatim>\<open>map\<close> to call.\<close>

fun dataMap :: "json \<Rightarrow> error + json" where
  "dataMap (JArr ts) = (case forEach patchTag ts of Inl e \<Rightarrow> Inl e | Inr ts' \<Rightarrow> Inr (JArr ts'))"
| "dataMap _ = Inl TypeError"

text \<open>The body of the innermost loop, on one metadata entry. An entry whose \<^verbatim>\<open>type\<close> is the
  stack-tags string is an object, so the assignment to \<^verbatim>\<open>data\<close> is a property update.\<close>

definition patchEntry :: "env \<Rightarrow> json \<Rightarrow> error + json" where
  "patchEntry E metadataEntry =
     (case getProp metadataEntry ''type'' of Inl e \<Rightarrow> Inl e
      | Inr ty \<Rightarrow>
          if ty = JStr (STACK_TAGS E) \<and> truthy (jsGet metadataEntry ''data'') then
            (case dataMap (jsGet metadataEntry ''data'') of Inl e \<Rightarrow> Inl e
             | Inr d \<Rightarrow> (case metadataEntry of
                  JObj ps \<Rightarrow> Inr (JObj (setProp ps ''data'' d))
                | _ \<Rightarrow> Inr metadataEntry))
          else Inr metadataEntry)"

definition patchArtifact :: "env \<Rightarrow> json \<Rightarrow> error + json" where
  "patchArtifact E artifact =
     (case getProp artifact ''type'' of Inl e \<Rightarrow> Inl e
      | Inr ty \<Rightarrow>
          if ty = JStr (AWS_CLOUDFORMATION_STACK E) then
            (case artifact of
               JObj ps \<Rightarrow>
                 (if truthy (jsGet artifact ''metadata'') then
                    (case forValues (forOf (patchEntry E)) (jsGet artifact ''metadata'') of
                       Inl e \<Rightarrow> Inl e
                     | Inr m \<Rightarrow> Inr (JObj (setProp ps ''metadata'' m)))
                  else Inr artifact)
             | _ \<Rightarrow> Inr artifact)
          else Inr artifact)"

definition patchStackTags :: "env \<Rightarrow> json \<Rightarrow> error + json" where
  "patchStackTags E manifest =
     (case getProp manifest ''artifacts'' of Inl e \<Rightarrow> Inl e
      | Inr arts \<Rightarrow>
          (case manifest of
             JObj ps \<Rightarrow>
               (if truthy arts then
                  (case forValues (patchArtifact E) arts of
                     Inl e \<Rightarrow> Inl e
                   | Inr arts' \<Rightarrow> Inr (JObj (setProp ps ''artifacts'' arts')))
                else Inr manifest)
           | _ \<Rightarrow> Inr manifest))"

section \<open>Rendering values in messages\<close>

definition digitChar :: "nat \<Rightarrow> char" where
  "digitChar d = ''0123456789'' ! d"

function showNat :: "nat \<Rightarrow> string" where
  "showNat n = (if n < 10 then [digitChar n] else showNat (n div 10) @ [digitChar (n mod 10)])"
  by pat_completeness auto
termination
  by (relation "measure id") auto

declare showNat.simps [simp del]

fun joinWith :: "string \<Rightarrow> string list \<Rightarrow> string" where
  "joinWith sep [] = []"
| "joinWith sep [x] = x"
| "joinWith sep (x # y # ys) = x @ sep @ joinWith sep (y # ys)"

text \<open>The first error of a list of results, or all their values.\<close>

fun allInr :: "(error + 'a) list \<Rightarrow> error + 'a list" where
  "allInr [] = Inr []"
| "allInr (Inl e # rs) = Inl e"
| "allInr (Inr x # rs) = (case allInr rs of Inl e \<Rightarrow> Inl e | Inr xs \<Rightarrow> Inr (x # xs))"

text \<open>The string a template literal puts for \<^verbatim>\<open>${v}\<close>. An array is joined with commas, its
  \<^verbatim>\<open>null\<close> and \<^verbatim>\<open>undefined\<close> elements left empty. An object is \<^verbatim>\<open>[object Object]\<close> through
  \<^verbatim>\<open>Object.prototype.toString\<close>, unless it has a \<^verbatim>\<open>toString\<close> field of its own: no value that
  JSON holds is callable, \<^verbatim>\<open>valueOf\<close> then gives no primitive either, and the conversion
  throws.\<close>

fun jsString :: "json \<Rightarrow> error + string" where
  "jsString JUndefined = Inr ''undefined''"
| "jsString JNull = Inr ''null''"
| "jsString (JBool b) = Inr (if b then ''true'' else ''false'')"
| "jsString (JNum n) = Inr n"
| "jsString (JStr s) = Inr s"
| "jsString (JArr xs) =
     (case allInr (map (\<lambda>x. if x = JUndefined \<or> x = JNull then Inr [] else jsString x) xs) of
        Inl e \<Rightarrow> Inl e
      | Inr ss \<Rightarrow> Inr (joinWith '','' ss))"
| "jsString (JObj ps) =
     (if ''toString'' \<in> set (map fst ps) then Inl TypeError else Inr ''[object Object]'')"

section \<open>Files and the JSON text in them\<close>

text \<open>
  A file holds text. The text is kept as the value it denotes when it is JSON, which is all
  the code asks of it: \<^verbatim>\<open>JSON.stringify\<close> leaves out the properties that hold \<^verbatim>\<open>undefined\<close>,
  writes \<^verbatim>\<open>null\<close> for an array element that is \<^verbatim>\<open>undefined\<close> and for a number that is not
  finite, and \<^verbatim>\<open>JSON.parse\<close> gives back what was written.
\<close>

datatype content = JsonText json | OtherText string

type_synonym files = "string \<Rightarrow> content option"

fun serialized :: "json \<Rightarrow> json" where
  "serialized (JObj ps) =
     JObj (map (\<lambda>(k, v). (k, serialized v)) (filter (\<lambda>(k, v). v \<noteq> JUndefined) ps))"
| "serialized (JArr xs) = JArr (map (\<lambda>x. if x = JUndefined then JNull else serialized x) xs)"
| "serialized (JNum n) =
     (if n = ''NaN'' \<or> n = ''Infinity'' \<or> n = ''-Infinity'' then JNull else JNum n)"
| "serialized v = v"

definition JSON_stringify :: "json \<Rightarrow> content" where
  "JSON_stringify v = JsonText (serialized v)"

fun JSON_parse :: "content \<Rightarrow> error + json" where
  "JSON_parse (JsonText v) = Inr v"
| "JSON_parse (OtherText s) = Inl SyntaxError"

definition readFileSync :: "files \<Rightarrow> string \<Rightarrow> error + content" where
  "readFileSync fs filePath = (case fs filePath of None \<Rightarrow> Inl IOError | Some c \<Rightarrow> Inr c)"

definition writeFileSync :: "files \<Rightarrow> string \<Rightarrow> content \<Rightarrow> files" where
  "writeFileSync fs filePath c = fs(filePath \<mapsto> c)"

section \<open>The manifest protocol\<close>

definition VERSION_MISMATCH :: string where
  "VERSION_MISMATCH = ''Cloud assembly schema version mismatch''"

text \<open>The object literal \<^verbatim>\<open>{ ...first, ...second }\<close>: the properties of \<^verbatim>\<open>first\<close>, then each
  property of \<^verbatim>\<open>second\<close> assigned in turn.\<close>

definition spread :: "(string \<times> json) list \<Rightarrow> (string \<times> json) list \<Rightarrow> (string \<times> json) list" where
  "spread first second = foldl (\<lambda>acc (k, v). setProp acc k v) first second"

text \<open>\<^verbatim>\<open>Manifest.save\<close>. The manifest is an \<^verbatim>\<open>assembly.AssemblyManifest\<close>, an object, given by
  its properties; the caller's object is only read.\<close>

definition save :: "env \<Rightarrow> (string \<times> json) list \<Rightarrow> string \<Rightarrow> files \<Rightarrow> files" where
  "save E manifest filePath fs =
     (let withVersion = spread [(''version'', JStr (version E))] manifest
      in writeFileSync fs filePath (JSON_stringify (JObj withVersion)))"

definition saveAssetManifest :: "env \<Rightarrow> (string \<times> json) list \<Rightarrow> string \<Rightarrow> files \<Rightarrow> files" where
  "saveAssetManifest E assetManifest filePath fs =
     (let withVersion = spread [(''version'', JStr (version E))] assetManifest
      in writeFileSync fs filePath (JSON_stringify (JObj withVersion)))"

text \<open>The call of \<^verbatim>\<open>Manifest.save\<close> as the runtime makes it. The objects of the program are
  on a heap and the manifest is passed by reference; the object literal allocates a new
  object, and no statement assigns to a field of the caller's.\<close>

type_synonym heap = "(string \<times> json) list list"

definition saveCall :: "env \<Rightarrow> nat \<Rightarrow> string \<Rightarrow> heap \<times> files \<Rightarrow> heap \<times> files" where
  "saveCall E manifest filePath =
     (\<lambda>(h, fs).
        let withVersion = spread [(''version'', JStr (version E))] (h ! manifest)
        in (h @ [withVersion], writeFileSync fs filePath (JSON_stringify (JObj withVersion))))"

text \<open>The inner function of \<^verbatim>\<open>_validate\<close>; \<^verbatim>\<open>!ver\<close> also holds of the empty string. The
  message is built before the error is thrown, and building it can throw.\<close>

definition invalidSemver :: "json \<Rightarrow> error" where
  "invalidSemver v =
     (case jsString v of
        Inl e \<Rightarrow> e
      | Inr shown \<Rightarrow> Error (''Invalid semver string: '' @ [CHR 0x22] @ shown @ [CHR 0x22]))"

definition parseVersion :: "env \<Rightarrow> json \<Rightarrow> error + string" where
  "parseVersion E v =
     (case semver_valid E v of
        None \<Rightarrow> Inl (invalidSemver v)
      | Some ver \<Rightarrow> if ver = [] then Inl (invalidSemver v) else Inr ver)"

text \<open>\<^verbatim>\<open>`${result}`\<close> of a validator result: each error on a line of its own, numbered from 0.\<close>

definition renderResult :: "string list \<Rightarrow> string" where
  "renderResult es =
     concat (map (\<lambda>(i, e). showNat i @ '': '' @ e @ [CHR 0x0A]) (zip [0 ..< length es] es))"

text \<open>\<^verbatim>\<open>Manifest._validate\<close>.\<close>

definition Manifest_validate :: "env \<Rightarrow> json \<Rightarrow> json \<Rightarrow> error + unit" where
  "Manifest_validate E assmbly ver =
     (case parseVersion E (JStr (version E)) of Inl e \<Rightarrow> Inl e
      | Inr maxSupported \<Rightarrow>
     (case parseVersion E ver of Inl e \<Rightarrow> Inl e
      | Inr actual \<Rightarrow>
          if semver_gt E actual maxSupported then
            Inl (Error (VERSION_MISMATCH @ '': Maximum schema version supported is ''
                        @ maxSupported @ '', but found '' @ actual))
          else
            (let result = schema_errors E assmbly in
             if result \<noteq> [] then
               Inl (Error (''Invalid assembly manifest:'' @ [CHR 0x0A] @ renderResult result))
             else Inr ())))"

text \<open>\<^verbatim>\<open>Manifest.load\<close>: the document is normalised in place, validated, and returned.\<close>

definition load :: "env \<Rightarrow> string \<Rightarrow> files \<Rightarrow> error + json" where
  "load E filePath fs =
     (case readFileSync fs filePath of Inl e \<Rightarrow> Inl e
      | Inr text \<Rightarrow>
     (case JSON_parse text of Inl e \<Rightarrow> Inl e
      | Inr raw \<Rightarrow>
     (case patchStackTags E raw of Inl e \<Rightarrow> Inl e
      | Inr raw' \<Rightarrow>
     (case Manifest_validate E (JObj [(''manifest'', raw')]) (jsGet raw' ''version'') of
        Inl e \<Rightarrow> Inl e
      | Inr _ \<Rightarrow> Inr raw'))))"


section \<open>The version comparator\<close>

text \<open>
  Modelled from the spec: the Version Comparator. The \<^verbatim>\<open>semver\<close> package that \<^verbatim>\<open>_validate\<close>
  calls is not among the sources, so a version is what the spec says it is: three numeric
  components and a pre-release tag, ordered by numeric major, minor and patch comparison
  and then by the pre-release comparison of the semantic-versioning standard (a version
  without a tag follows the same version with one; tags compare identifier by identifier,
  numeric identifiers numerically and below alphanumeric ones, those by character codes; a
  tag that is a proper prefix of another precedes it). Build metadata is read and dropped.
\<close>

datatype ident = Numeric nat | Alnum string

datatype semver = SemVer (major: nat) (minor: nat) (patch: nat) (prerelease: "ident list")

definition compareNum :: "nat \<Rightarrow> nat \<Rightarrow> int" where
  "compareNum a b = (if a = b then 0 else if a < b then - 1 else 1)"

fun compareIdentifiers :: "ident \<Rightarrow> ident \<Rightarrow> int" where
  "compareIdentifiers (Numeric a) (Numeric b) = compareNum a b"
| "compareIdentifiers (Numeric a) (Alnum b) = - 1"
| "compareIdentifiers (Alnum a) (Numeric b) = 1"
| "compareIdentifiers (Alnum a) (Alnum b) = (if a = b then 0 else if a < b then - 1 else 1)"

fun compareTags :: "ident list \<Rightarrow> ident list \<Rightarrow> int" where
  "compareTags [] [] = 0"
| "compareTags (x # xs) [] = 1"
| "compareTags [] (y # ys) = - 1"
| "compareTags (x # xs) (y # ys) =
     (if compareIdentifiers x y = 0 then compareTags xs ys else compareIdentifiers x y)"

definition compareMain :: "semver \<Rightarrow> semver \<Rightarrow> int" where
  "compareMain a b =
     (if compareNum (major a) (major b) \<noteq> 0 then compareNum (major a) (major b)
      else if compareNum (minor a) (minor b) \<noteq> 0 then compareNum (minor a) (minor b)
      else compareNum (patch a) (patch b))"

definition comparePre :: "semver \<Rightarrow> semver \<Rightarrow> int" where
  "comparePre a b =
     (if prerelease a \<noteq> [] \<and> prerelease b = [] then - 1
      else if prerelease a = [] \<and> prerelease b \<noteq> [] then 1
      else if prerelease a = [] \<and> prerelease b = [] then 0
      else compareTags (prerelease a) (prerelease b))"

definition semverCompare :: "semver \<Rightarrow> semver \<Rightarrow> int" where
  "semverCompare a b = (if compareMain a b \<noteq> 0 then compareMain a b else comparePre a b)"

definition compareGreaterThan :: "semver \<Rightarrow> semver \<Rightarrow> bool" where
  "compareGreaterThan a b = (semverCompare a b > 0)"

text \<open>Modelled from the spec: \<^verbatim>\<open>parse(text)\<close> of the Version Comparator, for the syntax of the
  semantic-versioning standard: \<^verbatim>\<open>major.minor.patch\<close>, then \<^verbatim>\<open>-\<close> and a dot-separated tag,
  then \<^verbatim>\<open>+\<close> and dot-separated build metadata; identifiers are non-empty and made of digits,
  letters and hyphens; no numeric one has a leading zero.\<close>

definition isDigit :: "char \<Rightarrow> bool" where
  "isDigit c = (CHR ''0'' \<le> c \<and> c \<le> CHR ''9'')"

definition isIdChar :: "char \<Rightarrow> bool" where
  "isIdChar c =
     (isDigit c \<or> (CHR ''A'' \<le> c \<and> c \<le> CHR ''Z'') \<or> (CHR ''a'' \<le> c \<and> c \<le> CHR ''z'')
      \<or> c = CHR ''-'')"

definition digitsToNat :: "string \<Rightarrow> nat" where
  "digitsToNat s = foldl (\<lambda>n c. 10 * n + (of_char c - 48)) 0 s"

fun noLeadingZero :: "string \<Rightarrow> bool" where
  "noLeadingZero [] = False"
| "noLeadingZero (c # cs) = (c \<noteq> CHR ''0'' \<or> cs = [])"

fun splitOn :: "char \<Rightarrow> string \<Rightarrow> string list" where
  "splitOn c [] = [[]]"
| "splitOn c (x # xs) =
     (if x = c then [] # splitOn c xs
      else (case splitOn c xs of [] \<Rightarrow> [[x]] | y # ys \<Rightarrow> (x # y) # ys))"

definition parseNum :: "string \<Rightarrow> nat option" where
  "parseNum s =
     (if s \<noteq> [] \<and> list_all isDigit s \<and> noLeadingZero s then Some (digitsToNat s) else None)"

definition parseIdent :: "string \<Rightarrow> ident option" where
  "parseIdent s =
     (if s = [] \<or> \<not> list_all isIdChar s then None
      else if list_all isDigit s then
        (if noLeadingZero s then Some (Numeric (digitsToNat s)) else None)
      else Some (Alnum s))"

fun allSome :: "'a option list \<Rightarrow> 'a list option" where
  "allSome [] = Some []"
| "allSome (None # xs) = None"
| "allSome (Some x # xs) = (case allSome xs of None \<Rightarrow> None | Some ys \<Rightarrow> Some (x # ys))"

definition parse :: "string \<Rightarrow> semver option" where
  "parse s =
     (let body = takeWhile (\<lambda>c. c \<noteq> CHR ''+'') s;
          build = dropWhile (\<lambda>c. c \<noteq> CHR ''+'') s;
          buildOk = (build = [] \<or>
             list_all (\<lambda>i. i \<noteq> [] \<and> list_all isIdChar i) (splitOn CHR ''.'' (tl build)));
          core = takeWhile (\<lambda>c. c \<noteq> CHR ''-'') body;
          rest = dropWhile (\<lambda>c. c \<noteq> CHR ''-'') body;
          tag = (if rest = [] then Some [] else allSome (map parseIdent (splitOn CHR ''.'' (tl rest))))
      in if \<not> buildOk then None
         else (case (map parseNum (splitOn CHR ''.'' core), tag) of
                 ([Some a, Some b, Some c], Some t) \<Rightarrow> Some (SemVer a b c t)
               | _ \<Rightarrow> None))"

fun showIdent :: "ident \<Rightarrow> string" where
  "showIdent (Numeric n) = showNat n"
| "showIdent (Alnum s) = s"

definition format :: "semver \<Rightarrow> string" where
  "format v =
     showNat (major v) @ ''.'' @ showNat (minor v) @ ''.'' @ showNat (patch v)
     @ (if prerelease v = [] then [] else CHR ''-'' # joinWith ''.'' (map showIdent (prerelease v)))"

text \<open>Modelled from the spec: \<^verbatim>\<open>semver.valid\<close> and \<^verbatim>\<open>semver.gt\<close> as the code uses them, on the
  Version Comparator above. Only a string can be a version; \<^verbatim>\<open>gt\<close> is only called on strings
  that \<^verbatim>\<open>valid\<close> returned.\<close>

fun valid :: "json \<Rightarrow> string option" where
  "valid (JStr s) = map_option format (parse s)"
| "valid _ = None"

definition gt :: "string \<Rightarrow> string \<Rightarrow> bool" where
  "gt a b =
     (case (parse a, parse b) of (Some x, Some y) \<Rightarrow> compareGreaterThan x y | _ \<Rightarrow> False)"

section \<open>The schema validator\<close>

text \<open>
  Modelled from the spec: the Schema Validator. Neither the \<^verbatim>\<open>jsonschema\<close> package nor
  \<^verbatim>\<open>cloud-assembly.schema.json\<close> is among the sources, so a grammar is the fragment the spec
  speaks of: a type for a value, a grammar for the elements of an array, and for an object
  the grammars of its declared properties, the properties it requires, and whether it is
  closed (\<^verbatim>\<open>additionalProperties: false\<close>). Validation recurses into nested structures and
  reports every violation with the path that locates it.
\<close>

datatype grammar =
    AnyValue
  | StringValue
  | NumberValue
  | BooleanValue
  | ArrayOf grammar
  | ObjectOf "(string \<times> grammar) list" "string list" bool

fun schemaValidate :: "grammar \<Rightarrow> string \<Rightarrow> json \<Rightarrow> string list" where
  "schemaValidate AnyValue path v = []"
| "schemaValidate StringValue path v =
     (case v of JStr _ \<Rightarrow> [] | _ \<Rightarrow> [path @ '' is not of a type(s) string''])"
| "schemaValidate NumberValue path v =
     (case v of JNum _ \<Rightarrow> [] | _ \<Rightarrow> [path @ '' is not of a type(s) number''])"
| "schemaValidate BooleanValue path v =
     (case v of JBool _ \<Rightarrow> [] | _ \<Rightarrow> [path @ '' is not of a type(s) boolean''])"
| "schemaValidate (ArrayOf g) path v =
     (case v of
        JArr xs \<Rightarrow>
          concat (map (\<lambda>(i, x). schemaValidate g (path @ ''['' @ showNat i @ '']'') x)
                    (zip [0 ..< length xs] xs))
      | _ \<Rightarrow> [path @ '' is not of a type(s) array''])"
| "schemaValidate (ObjectOf props required closed) path v =
     (case v of
        JObj ps \<Rightarrow>
          concat (map (\<lambda>(k, g). case map_of ps k of None \<Rightarrow> []
                                 | Some x \<Rightarrow> schemaValidate g (path @ ''.'' @ k) x) props)
          @ map (\<lambda>k. path @ '' requires property '' @ k) (filter (\<lambda>k. map_of ps k = None) required)
          @ (if closed then
               map (\<lambda>(k, x). path @ '' additionalProperty '' @ k @ '' exists in instance when not allowed'')
                 (filter (\<lambda>(k, x). map_of props k = None) ps)
             else [])
      | _ \<Rightarrow> [path @ '' is not of a type(s) object''])"

section \<open>A build to run the code on\<close>

text \<open>A closed grammar for both document kinds, as the \<^verbatim>\<open>Assembly\<close> wrapper of \<^verbatim>\<open>_validate\<close>
  presents them: a cloud assembly manifest under \<^verbatim>\<open>manifest\<close>, an asset manifest under
  \<^verbatim>\<open>assets\<close>.\<close>

definition exampleGrammar :: grammar where
  "exampleGrammar =
     ObjectOf
       [(''manifest'',
           ObjectOf [(''version'', StringValue), (''artifacts'', ObjectOf [] [] False)]
             [''version''] True),
        (''assets'',
           ObjectOf [(''version'', StringValue), (''files'', ObjectOf [] [] False)]
             [''version''] True)]
       [] True"

definition exampleEnv :: env where
  "exampleEnv =
     \<lparr> AWS_CLOUDFORMATION_STACK = ''aws:cloudformation:stack'',
       STACK_TAGS = ''aws:cdk:stack-tags'',
       version = ''10.0.0'',
       semver_valid = valid,
       semver_gt = gt,
       schema_errors = schemaValidate exampleGrammar ''instance'' \<rparr>"

section \<open>Shapes of documents\<close>

fun isObject :: "json \<Rightarrow> bool" where
  "isObject (JObj ps) = True"
| "isObject _ = False"

text \<open>A value whose properties can be read: anything but \<^verbatim>\<open>null\<close> and \<^verbatim>\<open>undefined\<close>.\<close>

fun notNullish :: "json \<Rightarrow> bool" where
  "notNullish JUndefined = False"
| "notNullish JNull = False"
| "notNullish _ = True"

text \<open>A data payload that is missing (absent, or any falsy value) or empty.\<close>

definition emptyPayload :: "json \<Rightarrow> bool" where
  "emptyPayload v = (\<not> truthy v \<or> v = JArr [])"

definition sparseEntry :: "env \<Rightarrow> json \<Rightarrow> bool" where
  "sparseEntry E e =
     (notNullish e \<and> (jsGet e ''type'' = JStr (STACK_TAGS E) \<longrightarrow> emptyPayload (jsGet e ''data'')))"

text \<open>The values \<^verbatim>\<open>Object.values\<close> lists, and the values a \<^verbatim>\<open>for ... of\<close> visits when there are
  any to visit.\<close>

fun objectValues :: "json \<Rightarrow> json list" where
  "objectValues (JObj ps) = map snd ps"
| "objectValues (JArr xs) = xs"
| "objectValues (JStr s) = map (\<lambda>c. JStr [c]) s"
| "objectValues _ = []"

fun iterated :: "json \<Rightarrow> json list option" where
  "iterated (JArr xs) = Some xs"
| "iterated (JStr s) = Some (map (\<lambda>c. JStr [c]) s)"
| "iterated _ = None"

definition sparseEntries :: "env \<Rightarrow> json \<Rightarrow> bool" where
  "sparseEntries E es =
     (case iterated es of Some xs \<Rightarrow> list_all (sparseEntry E) xs | None \<Rightarrow> False)"

definition sparseMetadata :: "env \<Rightarrow> json \<Rightarrow> bool" where
  "sparseMetadata E m = (\<not> truthy m \<or> list_all (sparseEntries E) (objectValues m))"

definition sparseArtifact :: "env \<Rightarrow> json \<Rightarrow> bool" where
  "sparseArtifact E a =
     (notNullish a \<and>
      (jsGet a ''type'' = JStr (AWS_CLOUDFORMATION_STACK E)
         \<longrightarrow> sparseMetadata E (jsGet a ''metadata'')))"

text \<open>A structurally sparse document: it has no \<^verbatim>\<open>artifacts\<close> field, or each of its cloud-stack
  artifacts has no \<^verbatim>\<open>metadata\<close> field or only metadata whose stack-tags entries are without a
  payload. A field that holds a falsy value counts as absent (the guards \<^verbatim>\<open>x || []\<close> do not
  tell them apart); no artifact and no metadata entry is \<^verbatim>\<open>null\<close>, and what holds the
  entries of a metadata path can be iterated.\<close>

definition sparseDocument :: "env \<Rightarrow> json \<Rightarrow> bool" where
  "sparseDocument E d =
     (notNullish d \<and>
      (\<not> truthy (jsGet d ''artifacts'')
       \<or> list_all (sparseArtifact E) (objectValues (jsGet d ''artifacts''))))"

text \<open>The fields of a manifest with one cloud-stack artifact that carries one stack-tags
  metadata entry with the given payload; and that manifest with the given version field.\<close>

definition tagsArtifacts :: "env \<Rightarrow> json \<Rightarrow> (string \<times> json) list" where
  "tagsArtifacts E payload =
     [(''artifacts'', JObj [(''stack'',
        JObj [(''type'', JStr (AWS_CLOUDFORMATION_STACK E)),
              (''metadata'', JObj [(''/stack'',
                 JArr [JObj [(''type'', JStr (STACK_TAGS E)), (''data'', payload)]])])])])]"

definition tagsManifest :: "env \<Rightarrow> json \<Rightarrow> json \<Rightarrow> json" where
  "tagsManifest E ver payload = JObj ((''version'', ver) # tagsArtifacts E payload)"



section \<open>Properties of the normaliser\<close>

subsection \<open>Loops and property updates\<close>

lemma forEach_Inr_iff: "forEach f xs = Inr ys \<longleftrightarrow> list_all2 (\<lambda>x y. f x = Inr y) xs ys"
proof (induction xs arbitrary: ys)
  case Nil
  then show ?case by auto
next
  case (Cons x xs)
  show ?case
  proof (cases "f x")
    case (Inl e)
    then show ?thesis by (cases ys) auto
  next
    case fx: (Inr y)
    show ?thesis
    proof (cases "forEach f xs")
      case (Inl e)
      then have "\<not> list_all2 (\<lambda>x y. f x = Inr y) xs zs" for zs
        using Cons.IH [of zs] by simp
      with Inl fx show ?thesis by (cases ys) auto
    next
      case (Inr zs)
      then have "list_all2 (\<lambda>x y. f x = Inr y) xs ws \<longleftrightarrow> ws = zs" for ws
        using Cons.IH [of ws] by auto
      with Inr fx show ?thesis by (cases ys) auto
    qed
  qed
qed

lemma forEach_same: "list_all (\<lambda>x. f x = Inr x) xs \<Longrightarrow> forEach f xs = Inr xs"
  by (induction xs) auto

lemma map_of_setProp: "map_of (setProp ps k v) k' = (if k' = k then Some v else map_of ps k')"
  by (induction ps) auto

lemma jsGet_setProp: "jsGet (JObj (setProp ps k v)) k' = (if k' = k then v else jsGet (JObj ps) k')"
  by (simp add: map_of_setProp)

lemma setProp_same: "map_of ps k = Some v \<Longrightarrow> setProp ps k v = ps"
  by (induction ps) (auto split: if_splits)

lemma setProp_twice: "setProp (setProp ps k v) k w = setProp ps k w"
  by (induction ps) auto

lemma patchTag_Inr: "patchTag t = Inr t' \<Longrightarrow> t' = JObj [(''key'', jsGet t ''Key''), (''value'', jsGet t ''Value'')]"
  by (cases t) (auto simp: patchTag_def)

lemma jsGet_defined: "jsGet (JObj ps) k = v \<Longrightarrow> v \<noteq> JUndefined \<Longrightarrow> map_of ps k = Some v"
  by (auto split: option.splits)

lemma truthy_defined: "truthy v \<Longrightarrow> v \<noteq> JUndefined"
  by auto

lemma getProp_notNullish: "notNullish v \<Longrightarrow> getProp v k = Inr (jsGet v k)"
  by (cases v) auto

lemma jsGet_string_object: "jsGet v k = JStr s \<Longrightarrow> \<exists>ps. v = JObj ps"
  by (cases v) auto

lemma sparseEntry_fixed:
  assumes "sparseEntry E e"
  shows "patchEntry E e = Inr e"
proof (cases "jsGet e ''type'' = JStr (STACK_TAGS E) \<and> truthy (jsGet e ''data'')")
  case False
  with assms show ?thesis
    by (auto simp: patchEntry_def sparseEntry_def getProp_notNullish)
next
  case True
  then obtain ps where e: "e = JObj ps" using jsGet_string_object by blast
  from assms True have d: "jsGet e ''data'' = JArr []"
    by (auto simp: sparseEntry_def emptyPayload_def)
  then have "map_of ps ''data'' = Some (JArr [])" using jsGet_defined e by blast
  then have "setProp ps ''data'' (JArr []) = ps" by (rule setProp_same)
  with True d show ?thesis by (simp add: patchEntry_def e)
qed

lemma forOf_fixed:
  "iterated c = Some xs \<Longrightarrow> list_all (\<lambda>v. f v = Inr v) xs \<Longrightarrow> forOf f c = Inr c"
  by (cases c) (auto simp: forEach_same)

lemma forValues_fixed:
  assumes "list_all (\<lambda>v. f v = Inr v) (objectValues c)"
  shows "forValues f c = Inr c"
proof (cases c)
  case (JObj ps)
  with assms have "list_all (\<lambda>p. (case p of (k, v) \<Rightarrow> case f v of Inl e \<Rightarrow> Inl e | Inr v' \<Rightarrow> Inr (k, v')) = Inr p) ps"
    by (auto simp: list_all_iff)
  then show ?thesis unfolding JObj by (simp add: forEach_same)
next
  case (JArr xs)
  with assms show ?thesis by (simp add: forEach_same)
next
  case (JStr s)
  with assms show ?thesis by (simp add: forEach_same)
qed simp_all

lemma sparseEntries_fixed: "sparseEntries E es \<Longrightarrow> forOf (patchEntry E) es = Inr es"
  unfolding sparseEntries_def
  by (auto split: option.splits simp: list_all_iff sparseEntry_fixed intro!: forOf_fixed)

lemma sparseMetadata_fixed:
  assumes "sparseMetadata E m" and "truthy m"
  shows "forValues (forOf (patchEntry E)) m = Inr m"
  using assms unfolding sparseMetadata_def
  by (auto simp: list_all_iff sparseEntries_fixed intro!: forValues_fixed)

lemma sparseArtifact_fixed:
  assumes "sparseArtifact E a"
  shows "patchArtifact E a = Inr a"
proof (cases "jsGet a ''type'' = JStr (AWS_CLOUDFORMATION_STACK E) \<and> truthy (jsGet a ''metadata'')")
  case False
  with assms show ?thesis
    by (auto simp: sparseArtifact_def patchArtifact_def getProp_notNullish
        simp del: jsGet.simps split: json.splits)
next
  case True
  then obtain ps where a: "a = JObj ps" using jsGet_string_object by blast
  from True assms have sm: "sparseMetadata E (jsGet a ''metadata'')"
    by (auto simp: sparseArtifact_def)
  from True have "map_of ps ''metadata'' = Some (jsGet a ''metadata'')"
    using jsGet_defined a truthy_defined by blast
  then have "setProp ps ''metadata'' (jsGet a ''metadata'') = ps" by (rule setProp_same)
  with True sparseMetadata_fixed [OF sm] show ?thesis by (simp add: patchArtifact_def a)
qed

subsection \<open>Sparse documents\<close>

text \<open>
  C10, as the code has it. The normaliser returns a document unchanged and raises no error
  when the document is not \<^verbatim>\<open>null\<close> and its \<^verbatim>\<open>artifacts\<close> field is absent, or holds only
  artifacts that are not \<^verbatim>\<open>null\<close> and of which each cloud-stack one either has no \<^verbatim>\<open>metadata\<close>
  field or has metadata whose paths hold arrays of entries that are not \<^verbatim>\<open>null\<close>, each
  stack-tags entry with a missing or empty \<^verbatim>\<open>data\<close> payload. The guards cover the absent
  fields only: a \<^verbatim>\<open>null\<close> artifact or entry makes the normaliser throw.
\<close>

theorem normalizer_total_on_sparse_documents:
  assumes "sparseDocument E d"
  shows "patchStackTags E d = Inr d"
proof (cases "truthy (jsGet d ''artifacts'')")
  case False
  with assms show ?thesis
    by (cases d) (auto simp: sparseDocument_def patchStackTags_def simp del: jsGet.simps)
next
  case True
  then obtain ps where d: "d = JObj ps" by (cases d) auto
  from True assms have "list_all (\<lambda>a. patchArtifact E a = Inr a) (objectValues (jsGet d ''artifacts''))"
    by (auto simp: sparseDocument_def list_all_iff sparseArtifact_fixed)
  then have fv: "forValues (patchArtifact E) (jsGet d ''artifacts'') = Inr (jsGet d ''artifacts'')"
    by (rule forValues_fixed)
  from True have "map_of ps ''artifacts'' = Some (jsGet d ''artifacts'')"
    using jsGet_defined d truthy_defined by blast
  then have "setProp ps ''artifacts'' (jsGet d ''artifacts'') = ps" by (rule setProp_same)
  with True fv show ?thesis by (simp add: patchStackTags_def d del: jsGet.simps)
qed

theorem normalizer_total_on_sparse_documents_witness:
  "sparseDocument exampleEnv (JObj [(''version'', JStr ''10.0.0'')])
   \<and> patchStackTags exampleEnv (JObj [(''version'', JStr ''10.0.0'')])
       = Inr (JObj [(''version'', JStr ''10.0.0'')])
   \<and> sparseDocument exampleEnv
        (JObj [(''artifacts'', JObj
           [(''bare'', JObj [(''type'', JStr ''aws:cloudformation:stack'')]),
            (''tree'', JObj [(''type'', JStr ''cdk:tree''), (''metadata'', JNull)]),
            (''tagged'', JObj [(''type'', JStr ''aws:cloudformation:stack''),
               (''metadata'', JObj [(''/tagged'',
                  JArr [JObj [(''type'', JStr ''aws:cdk:stack-tags''), (''data'', JArr [])],
                        JObj [(''type'', JStr ''aws:cdk:stack-tags'')],
                        JObj [(''type'', JStr ''aws:cdk:logicalId''), (''data'', JStr ''Id'')]])])])])])
   \<and> patchStackTags exampleEnv
        (JObj [(''artifacts'', JObj
           [(''bare'', JObj [(''type'', JStr ''aws:cloudformation:stack'')]),
            (''tree'', JObj [(''type'', JStr ''cdk:tree''), (''metadata'', JNull)]),
            (''tagged'', JObj [(''type'', JStr ''aws:cloudformation:stack''),
               (''metadata'', JObj [(''/tagged'',
                  JArr [JObj [(''type'', JStr ''aws:cdk:stack-tags''), (''data'', JArr [])],
                        JObj [(''type'', JStr ''aws:cdk:stack-tags'')],
                        JObj [(''type'', JStr ''aws:cdk:logicalId''), (''data'', JStr ''Id'')]])])])])])
     = Inr (JObj [(''artifacts'', JObj
           [(''bare'', JObj [(''type'', JStr ''aws:cloudformation:stack'')]),
            (''tree'', JObj [(''type'', JStr ''cdk:tree''), (''metadata'', JNull)]),
            (''tagged'', JObj [(''type'', JStr ''aws:cloudformation:stack''),
               (''metadata'', JObj [(''/tagged'',
                  JArr [JObj [(''type'', JStr ''aws:cdk:stack-tags''), (''data'', JArr [])],
                        JObj [(''type'', JStr ''aws:cdk:stack-tags'')],
                        JObj [(''type'', JStr ''aws:cdk:logicalId''), (''data'', JStr ''Id'')]])])])])])"
proof -
  let ?a = "JObj [(''version'', JStr ''10.0.0'')]"
  let ?b = "JObj [(''artifacts'', JObj
           [(''bare'', JObj [(''type'', JStr ''aws:cloudformation:stack'')]),
            (''tree'', JObj [(''type'', JStr ''cdk:tree''), (''metadata'', JNull)]),
            (''tagged'', JObj [(''type'', JStr ''aws:cloudformation:stack''),
               (''metadata'', JObj [(''/tagged'',
                  JArr [JObj [(''type'', JStr ''aws:cdk:stack-tags''), (''data'', JArr [])],
                        JObj [(''type'', JStr ''aws:cdk:stack-tags'')],
                        JObj [(''type'', JStr ''aws:cdk:logicalId''), (''data'', JStr ''Id'')]])])])])]"
  have a: "sparseDocument exampleEnv ?a" by code_simp
  have b: "sparseDocument exampleEnv ?b" by code_simp
  from a b normalizer_total_on_sparse_documents [OF a] normalizer_total_on_sparse_documents [OF b]
  show ?thesis by blast
qed

theorem normalizer_null_artifact_counterexample:
  "patchStackTags exampleEnv
     (JObj [(''artifacts'', JObj [(''stack'', JObj [(''type'', JStr ''aws:cloudformation:stack'')]),
                                  (''asset'', JNull)])])
   = Inl TypeError"
  by code_simp

subsection \<open>What the normaliser writes\<close>

lemma forEach_nth:
  "forEach f xs = Inr ys \<Longrightarrow> length ys = length xs \<and> (\<forall>i < length xs. f (xs ! i) = Inr (ys ! i))"
  by (simp add: forEach_Inr_iff list_all2_conv_all_nth)

lemma forEach_values_map_of:
  "forEach (\<lambda>(k, v). case f v of Inl e \<Rightarrow> Inl e | Inr v' \<Rightarrow> Inr (k, v')) ps = Inr ps'
     \<Longrightarrow> map_of ps k = Some v \<Longrightarrow> \<exists>v'. f v = Inr v' \<and> map_of ps' k = Some v'"
proof (induction ps arbitrary: ps')
  case Nil
  then show ?case by simp
next
  case (Cons p ps)
  obtain k0 v0 where p: "p = (k0, v0)" by (cases p)
  from Cons.prems(1) obtain v0' qs where
    f0: "f v0 = Inr v0'" and rest: "forEach (\<lambda>(k, v). case f v of Inl e \<Rightarrow> Inl e | Inr v' \<Rightarrow> Inr (k, v')) ps = Inr qs"
    and ps': "ps' = (k0, v0') # qs"
    by (auto simp: p split: sum.splits)
  show ?case
  proof (cases "k0 = k")
    case True
    with Cons.prems(2) f0 ps' show ?thesis by (simp add: p)
  next
    case False
    with Cons.prems(2) have "map_of ps k = Some v" by (simp add: p)
    from Cons.IH [OF rest this] False ps' show ?thesis by simp
  qed
qed

lemma jsGet_object: "isObject (jsGet v k) \<Longrightarrow> \<exists>ps. v = JObj ps \<and> map_of ps k = Some (jsGet v k)"
  by (cases v) (auto split: option.splits)

lemma jsGet_array: "jsGet v k = JArr xs \<Longrightarrow> \<exists>ps. v = JObj ps \<and> map_of ps k = Some (JArr xs)"
  by (cases v) (auto split: option.splits)

lemma jsGet_string: "jsGet v k = JStr s \<Longrightarrow> \<exists>ps. v = JObj ps \<and> map_of ps k = Some (JStr s)"
  by (cases v) (auto split: option.splits)

lemma patchStackTags_artifact:
  assumes "patchStackTags E d = Inr d'" and "isObject (jsGet (jsGet d ''artifacts'') a)"
  shows "\<exists>art'. patchArtifact E (jsGet (jsGet d ''artifacts'') a) = Inr art'
            \<and> jsGet (jsGet d' ''artifacts'') a = art'"
proof -
  from jsGet_object [OF assms(2)] obtain arts
    where arts: "jsGet d ''artifacts'' = JObj arts"
      and a: "map_of arts a = Some (jsGet (jsGet d ''artifacts'') a)" by blast
  then have "isObject (jsGet d ''artifacts'')" by simp
  from jsGet_object [OF this] obtain ps where d: "d = JObj ps" by blast
  from assms(1) arts obtain arts' where
    fe: "forEach (\<lambda>(k, v). case patchArtifact E v of Inl e \<Rightarrow> Inl e | Inr v' \<Rightarrow> Inr (k, v')) arts = Inr arts'"
    and d': "d' = JObj (setProp ps ''artifacts'' (JObj arts'))"
    unfolding d patchStackTags_def by (auto split: sum.splits simp del: jsGet.simps)
  from forEach_values_map_of [OF fe a] obtain art' where
    "patchArtifact E (jsGet (jsGet d ''artifacts'') a) = Inr art'" "map_of arts' a = Some art'" by blast
  then show ?thesis by (simp add: d' map_of_setProp)
qed

lemma patchArtifact_entries:
  assumes "patchArtifact E art = Inr art'"
    and "jsGet art ''type'' = JStr (AWS_CLOUDFORMATION_STACK E)"
    and "jsGet (jsGet art ''metadata'') m = JArr es"
  shows "\<exists>es'. forEach (patchEntry E) es = Inr es' \<and> jsGet (jsGet art' ''metadata'') m = JArr es'"
proof -
  from jsGet_array [OF assms(3)] obtain ms
    where ms: "jsGet art ''metadata'' = JObj ms" and m: "map_of ms m = Some (JArr es)" by blast
  from jsGet_string [OF assms(2)] obtain ps where art: "art = JObj ps" by blast
  from assms(1,2) ms obtain ms' where
    fe: "forEach (\<lambda>(k, v). case forOf (patchEntry E) v of Inl e \<Rightarrow> Inl e | Inr v' \<Rightarrow> Inr (k, v')) ms = Inr ms'"
    and art': "art' = JObj (setProp ps ''metadata'' (JObj ms'))"
    unfolding art patchArtifact_def by (auto split: sum.splits simp del: jsGet.simps)
  from forEach_values_map_of [OF fe m] obtain v' where
    "forOf (patchEntry E) (JArr es) = Inr v'" "map_of ms' m = Some v'" by blast
  then show ?thesis by (auto simp: art' map_of_setProp split: sum.splits)
qed

lemma forEach_patchTag:
  "forEach patchTag ts = Inr ts'
     \<Longrightarrow> ts' = map (\<lambda>t. JObj [(''key'', jsGet t ''Key''), (''value'', jsGet t ''Value'')]) ts"
proof (induction ts arbitrary: ts')
  case Nil
  then show ?case by simp
next
  case (Cons t ts)
  then show ?case by (auto split: sum.splits dest: patchTag_Inr)
qed

lemma patchEntry_tags:
  assumes "patchEntry E e = Inr e'"
    and "jsGet e ''type'' = JStr (STACK_TAGS E)"
    and "jsGet e ''data'' = JArr ts"
  shows "jsGet e' ''data'' = JArr (map (\<lambda>t. JObj [(''key'', jsGet t ''Key''), (''value'', jsGet t ''Value'')]) ts)
         \<and> (\<forall>k. k \<noteq> ''data'' \<longrightarrow> jsGet e' k = jsGet e k)"
proof -
  from jsGet_string [OF assms(2)] obtain ps where e: "e = JObj ps" by blast
  from assms obtain ts' where fe: "forEach patchTag ts = Inr ts'"
    and e': "e' = JObj (setProp ps ''data'' (JArr ts'))"
    unfolding e patchEntry_def by (auto split: sum.splits simp del: jsGet.simps)
  from forEach_patchTag [OF fe] show ?thesis by (simp add: e e' map_of_setProp)
qed

text \<open>
  C4, as the code has it. When the normaliser completes, then for every artifact typed as a
  cloud-stack artifact and every metadata entry of it typed as stack tags whose payload is an
  array, the payload is replaced by the array that holds, for each element \<^verbatim>\<open>t\<close> in order,
  exactly \<^verbatim>\<open>{ key: t.Key, value: t.Value }\<close>; the other fields of the metadata entry are kept.
  Nothing else of an element survives.
\<close>

theorem normalizer_rewrites_payload:
  assumes "patchStackTags E d = Inr d'"
    and "jsGet (jsGet (jsGet d ''artifacts'') a) ''type'' = JStr (AWS_CLOUDFORMATION_STACK E)"
    and "jsGet (jsGet (jsGet (jsGet d ''artifacts'') a) ''metadata'') m = JArr es"
    and "i < length es"
    and "jsGet (es ! i) ''type'' = JStr (STACK_TAGS E)"
    and "jsGet (es ! i) ''data'' = JArr ts"
  shows "\<exists>es'. jsGet (jsGet (jsGet (jsGet d' ''artifacts'') a) ''metadata'') m = JArr es'
           \<and> length es' = length es
           \<and> jsGet (es' ! i) ''data'' =
               JArr (map (\<lambda>t. JObj [(''key'', jsGet t ''Key''), (''value'', jsGet t ''Value'')]) ts)
           \<and> (\<forall>k. k \<noteq> ''data'' \<longrightarrow> jsGet (es' ! i) k = jsGet (es ! i) k)"
proof -
  from jsGet_string [OF assms(2)] have "isObject (jsGet (jsGet d ''artifacts'') a)" by auto
  from patchStackTags_artifact [OF assms(1) this] obtain art' where
    pa: "patchArtifact E (jsGet (jsGet d ''artifacts'') a) = Inr art'"
    and art': "jsGet (jsGet d' ''artifacts'') a = art'" by blast
  from patchArtifact_entries [OF pa assms(2,3)] obtain es' where
    fe: "forEach (patchEntry E) es = Inr es'" and es': "jsGet (jsGet art' ''metadata'') m = JArr es'"
    by blast
  from forEach_nth [OF fe] assms(4) have len: "length es' = length es"
    and pe: "patchEntry E (es ! i) = Inr (es' ! i)" by auto
  from patchEntry_tags [OF pe assms(5,6)] es' len show ?thesis unfolding art' by blast
qed

theorem normalizer_rewrites_payload_witness:
  "patchStackTags exampleEnv
     (tagsManifest exampleEnv (JStr ''10.0.0'') (JArr [JObj [(''Key'', JStr ''env''), (''Value'', JStr ''prod'')]]))
   = Inr (tagsManifest exampleEnv (JStr ''10.0.0'') (JArr [JObj [(''key'', JStr ''env''), (''value'', JStr ''prod'')]]))
   \<and> (\<exists>es'. jsGet (jsGet (jsGet (jsGet
           (tagsManifest exampleEnv (JStr ''10.0.0'') (JArr [JObj [(''key'', JStr ''env''), (''value'', JStr ''prod'')]]))
           ''artifacts'') ''stack'') ''metadata'') ''/stack'' = JArr es'
         \<and> length es' = 1
         \<and> jsGet (es' ! 0) ''data'' = JArr [JObj [(''key'', JStr ''env''), (''value'', JStr ''prod'')]])"
proof -
  let ?ts = "[JObj [(''Key'', JStr ''env''), (''Value'', JStr ''prod'')]]"
  let ?d = "tagsManifest exampleEnv (JStr ''10.0.0'') (JArr ?ts)"
  let ?d' = "tagsManifest exampleEnv (JStr ''10.0.0'') (JArr [JObj [(''key'', JStr ''env''), (''value'', JStr ''prod'')]])"
  let ?es = "[JObj [(''type'', JStr (STACK_TAGS exampleEnv)), (''data'', JArr ?ts)]]"
  have run: "patchStackTags exampleEnv ?d = Inr ?d'" by code_simp
  have ty: "jsGet (jsGet (jsGet ?d ''artifacts'') ''stack'') ''type''
      = JStr (AWS_CLOUDFORMATION_STACK exampleEnv)"
    by (simp add: tagsManifest_def tagsArtifacts_def)
  have md: "jsGet (jsGet (jsGet (jsGet ?d ''artifacts'') ''stack'') ''metadata'') ''/stack'' = JArr ?es"
    by (simp add: tagsManifest_def tagsArtifacts_def)
  have i: "0 < length ?es" by simp
  have ety: "jsGet (?es ! 0) ''type'' = JStr (STACK_TAGS exampleEnv)" by simp
  have edata: "jsGet (?es ! 0) ''data'' = JArr ?ts" by simp
  from normalizer_rewrites_payload [OF run ty md i ety edata] obtain es' where
    "jsGet (jsGet (jsGet (jsGet ?d' ''artifacts'') ''stack'') ''metadata'') ''/stack'' = JArr es'"
    "length es' = 1"
    "jsGet (es' ! 0) ''data'' = JArr [JObj [(''key'', JStr ''env''), (''value'', JStr ''prod'')]]"
    by auto
  with run show ?thesis by blast
qed

theorem normalizer_drops_other_fields_counterexample:
  "patchStackTags exampleEnv
     (tagsManifest exampleEnv (JStr ''10.0.0'')
        (JArr [JObj [(''Key'', JStr ''env''), (''Value'', JStr ''prod''), (''Scope'', JStr ''team'')]]))
   = Inr (tagsManifest exampleEnv (JStr ''10.0.0'')
        (JArr [JObj [(''key'', JStr ''env''), (''value'', JStr ''prod'')]]))"
  by code_simp

subsection \<open>Repeated normalisation\<close>

lemma getProp_Inr_iff: "getProp v k = Inr w \<longleftrightarrow> v \<noteq> JUndefined \<and> v \<noteq> JNull \<and> w = jsGet v k"
  by (cases v) auto

lemma forEach_settles:
  assumes "\<And>x y. f x = Inr y \<Longrightarrow> \<exists>z. f y = Inr z \<and> f z = Inr z"
    and "forEach f xs = Inr ys"
  shows "\<exists>zs. forEach f ys = Inr zs \<and> forEach f zs = Inr zs"
  using assms(2)
proof (induction xs arbitrary: ys)
  case Nil
  then show ?case by simp
next
  case (Cons x xs)
  from Cons.prems obtain y ys' where fx: "f x = Inr y" and r: "forEach f xs = Inr ys'"
    and ys: "ys = y # ys'" by (auto split: sum.splits)
  from assms(1) [OF fx] obtain z where "f y = Inr z" "f z = Inr z" by blast
  moreover from Cons.IH [OF r] obtain zs where "forEach f ys' = Inr zs" "forEach f zs = Inr zs"
    by blast
  ultimately show ?case by (auto simp: ys)
qed

lemma onValue_settles:
  assumes "\<And>x y. f x = Inr y \<Longrightarrow> \<exists>z. f y = Inr z \<and> f z = Inr z"
    and "(case p of (k, v) \<Rightarrow> case f v of Inl e \<Rightarrow> Inl e | Inr v' \<Rightarrow> Inr (k, v')) = Inr q"
  shows "\<exists>r. (case q of (k, v) \<Rightarrow> case f v of Inl e \<Rightarrow> Inl e | Inr v' \<Rightarrow> Inr (k, v')) = Inr r
            \<and> (case r of (k, v) \<Rightarrow> case f v of Inl e \<Rightarrow> Inl e | Inr v' \<Rightarrow> Inr (k, v')) = Inr r"
proof -
  obtain k v where p: "p = (k, v)" by (cases p)
  from assms(2) obtain v' where fv: "f v = Inr v'" and q: "q = (k, v')"
    by (auto simp: p split: sum.splits)
  from assms(1) [OF fv] obtain z where "f v' = Inr z" "f z = Inr z" by blast
  then show ?thesis by (auto simp: q)
qed

lemma forOf_settles:
  assumes "\<And>x y. f x = Inr y \<Longrightarrow> \<exists>z. f y = Inr z \<and> f z = Inr z"
    and "forOf f v = Inr w"
  shows "\<exists>z. forOf f w = Inr z \<and> forOf f z = Inr z"
proof (cases v)
  case (JArr xs)
  with assms(2) obtain ys where fe: "forEach f xs = Inr ys" and w: "w = JArr ys"
    by (auto split: sum.splits)
  have "\<exists>zs. forEach f ys = Inr zs \<and> forEach f zs = Inr zs"
    by (rule forEach_settles [OF _ fe]) (rule assms(1))
  then show ?thesis by (auto simp: w)
next
  case (JStr s)
  with assms(2) show ?thesis by (auto split: sum.splits)
qed (use assms(2) in auto)

lemma forValues_settles:
  assumes "\<And>x y. f x = Inr y \<Longrightarrow> \<exists>z. f y = Inr z \<and> f z = Inr z"
    and "forValues f v = Inr w"
  shows "\<exists>z. forValues f w = Inr z \<and> forValues f z = Inr z"
proof (cases v)
  case (JArr xs)
  with assms(2) obtain ys where fe: "forEach f xs = Inr ys" and w: "w = JArr ys"
    by (auto split: sum.splits)
  have "\<exists>zs. forEach f ys = Inr zs \<and> forEach f zs = Inr zs"
    by (rule forEach_settles [OF _ fe]) (rule assms(1))
  then show ?thesis by (auto simp: w)
next
  case (JStr s)
  with assms(2) show ?thesis by (auto split: sum.splits)
next
  case (JObj ps)
  let ?g = "\<lambda>(k, v). case f v of Inl e \<Rightarrow> Inl e | Inr v' \<Rightarrow> Inr (k, v')"
  from JObj assms(2) obtain qs where fe: "forEach ?g ps = Inr qs" and w: "w = JObj qs"
    by (auto split: sum.splits)
  have "\<exists>zs. forEach ?g qs = Inr zs \<and> forEach ?g zs = Inr zs"
  proof (rule forEach_settles [OF _ fe])
    fix p q assume "?g p = Inr q"
    then show "\<exists>r. ?g q = Inr r \<and> ?g r = Inr r"
      by (rule onValue_settles [rotated]) (rule assms(1))
  qed
  then show ?thesis by (auto simp: w)
qed (use assms(2) in auto)

lemma forValues_truthy: "forValues f v = Inr w \<Longrightarrow> truthy v \<Longrightarrow> truthy w"
  by (cases v) (auto split: sum.splits)

lemma patchTag_settles:
  assumes "patchTag x = Inr y"
  shows "\<exists>z. patchTag y = Inr z \<and> patchTag z = Inr z"
proof -
  from patchTag_Inr [OF assms] obtain a b where y: "y = JObj [(''key'', a), (''value'', b)]" by blast
  have "patchTag y = Inr (JObj [(''key'', JUndefined), (''value'', JUndefined)])"
    by (simp add: y patchTag_def)
  moreover have "patchTag (JObj [(''key'', JUndefined), (''value'', JUndefined)])
      = Inr (JObj [(''key'', JUndefined), (''value'', JUndefined)])"
    by (simp add: patchTag_def)
  ultimately show ?thesis by blast
qed

lemma dataMap_settles:
  assumes "dataMap v = Inr w"
  shows "\<exists>z. dataMap w = Inr z \<and> dataMap z = Inr z \<and> truthy w \<and> truthy z"
proof -
  from assms obtain ts ts' where v: "v = JArr ts" and fe: "forEach patchTag ts = Inr ts'"
    and w: "w = JArr ts'" by (cases v) (auto split: sum.splits)
  have "\<exists>zs. forEach patchTag ts' = Inr zs \<and> forEach patchTag zs = Inr zs"
    by (rule forEach_settles [OF _ fe]) (rule patchTag_settles)
  then show ?thesis by (auto simp: w)
qed

lemma patchEntry_settles:
  assumes "patchEntry E x = Inr y"
  shows "\<exists>z. patchEntry E y = Inr z \<and> patchEntry E z = Inr z"
proof (cases "jsGet x ''type'' = JStr (STACK_TAGS E) \<and> truthy (jsGet x ''data'')")
  case False
  with assms have "y = x" by (auto simp: patchEntry_def getProp_Inr_iff split: sum.splits)
  with assms show ?thesis by auto
next
  case True
  then obtain ps where x: "x = JObj ps" using jsGet_string by blast
  from assms True obtain d1 where dm: "dataMap (jsGet x ''data'') = Inr d1"
    and y: "y = JObj (setProp ps ''data'' d1)"
    unfolding x patchEntry_def by (auto split: sum.splits simp del: jsGet.simps)
  from dataMap_settles [OF dm] obtain d2 where d2: "dataMap d1 = Inr d2" "dataMap d2 = Inr d2"
    "truthy d1" "truthy d2" by blast
  from True have ty: "map_of ps ''type'' = Some (JStr (STACK_TAGS E))"
    using jsGet_defined x by blast
  have "patchEntry E y = Inr (JObj (setProp ps ''data'' d2))"
    using d2 ty by (simp add: y patchEntry_def map_of_setProp setProp_twice)
  moreover have "patchEntry E (JObj (setProp ps ''data'' d2)) = Inr (JObj (setProp ps ''data'' d2))"
    using d2 ty by (simp add: patchEntry_def map_of_setProp setProp_twice)
  ultimately show ?thesis by blast
qed

lemma patchArtifact_settles:
  assumes "patchArtifact E x = Inr y"
  shows "\<exists>z. patchArtifact E y = Inr z \<and> patchArtifact E z = Inr z"
proof (cases "jsGet x ''type'' = JStr (AWS_CLOUDFORMATION_STACK E) \<and> truthy (jsGet x ''metadata'')")
  case False
  with assms have "y = x"
    by (auto simp: patchArtifact_def getProp_Inr_iff simp del: jsGet.simps
          split: sum.splits json.splits if_splits)
  with assms show ?thesis by auto
next
  case True
  let ?f = "forOf (patchEntry E)"
  have st: "\<exists>z. ?f y = Inr z \<and> ?f z = Inr z" if "?f x = Inr y" for x y
    using that by (rule forOf_settles [rotated]) (rule patchEntry_settles)
  from True obtain ps where x: "x = JObj ps" using jsGet_string by blast
  from assms True obtain m1 where fv: "forValues ?f (jsGet x ''metadata'') = Inr m1"
    and y: "y = JObj (setProp ps ''metadata'' m1)"
    unfolding x patchArtifact_def by (auto split: sum.splits simp del: jsGet.simps)
  have "\<exists>z. forValues ?f m1 = Inr z \<and> forValues ?f z = Inr z"
    by (rule forValues_settles [OF _ fv]) (rule st)
  then obtain m2 where m2: "forValues ?f m1 = Inr m2" "forValues ?f m2 = Inr m2" by blast
  from forValues_truthy [OF fv] True have t1: "truthy m1" by simp
  with forValues_truthy [OF m2(1)] have t2: "truthy m2" by simp
  from True have ty: "map_of ps ''type'' = Some (JStr (AWS_CLOUDFORMATION_STACK E))"
    using jsGet_defined x by blast
  have "patchArtifact E y = Inr (JObj (setProp ps ''metadata'' m2))"
    using m2 t1 ty by (simp add: y patchArtifact_def map_of_setProp setProp_twice)
  moreover have "patchArtifact E (JObj (setProp ps ''metadata'' m2)) = Inr (JObj (setProp ps ''metadata'' m2))"
    using m2 t2 ty by (simp add: patchArtifact_def map_of_setProp setProp_twice)
  ultimately show ?thesis by blast
qed

text \<open>
  C3, as the code has it. The normaliser rewrites every element of a targeted payload,
  whether or not it has the capitalised fields, so a second pass is not a no-op: it turns
  each rewritten element into \<^verbatim>\<open>{ key: undefined, value: undefined }\<close>. Whenever one pass
  completes, a second pass completes as well, and from then on a pass changes nothing.
\<close>

theorem normalizer_settles_after_second_pass:
  assumes "patchStackTags E d = Inr d1"
  shows "\<exists>d2. patchStackTags E d1 = Inr d2 \<and> patchStackTags E d2 = Inr d2"
proof (cases "isObject d \<and> truthy (jsGet d ''artifacts'')")
  case False
  with assms have "d1 = d" by (cases d) (auto simp: patchStackTags_def split: sum.splits)
  with assms show ?thesis by auto
next
  case True
  let ?f = "patchArtifact E"
  from True obtain ps where d: "d = JObj ps" by (cases d) auto
  from assms True obtain a1 where fv: "forValues ?f (jsGet d ''artifacts'') = Inr a1"
    and d1: "d1 = JObj (setProp ps ''artifacts'' a1)"
    unfolding d patchStackTags_def by (auto split: sum.splits simp del: jsGet.simps)
  have "\<exists>z. forValues ?f a1 = Inr z \<and> forValues ?f z = Inr z"
    by (rule forValues_settles [OF _ fv]) (rule patchArtifact_settles)
  then obtain a2 where a2: "forValues ?f a1 = Inr a2" "forValues ?f a2 = Inr a2" by blast
  from forValues_truthy [OF fv] True have t1: "truthy a1" by simp
  with forValues_truthy [OF a2(1)] have t2: "truthy a2" by simp
  have "patchStackTags E d1 = Inr (JObj (setProp ps ''artifacts'' a2))"
    using a2 t1 by (simp add: d1 patchStackTags_def map_of_setProp setProp_twice)
  moreover have "patchStackTags E (JObj (setProp ps ''artifacts'' a2)) = Inr (JObj (setProp ps ''artifacts'' a2))"
    using a2 t2 by (simp add: patchStackTags_def map_of_setProp setProp_twice)
  ultimately show ?thesis by blast
qed

theorem normalizer_settles_after_second_pass_witness:
  "patchStackTags exampleEnv
     (tagsManifest exampleEnv (JStr ''10.0.0'') (JArr [JObj [(''Key'', JStr ''env''), (''Value'', JStr ''prod'')]]))
   = Inr (tagsManifest exampleEnv (JStr ''10.0.0'') (JArr [JObj [(''key'', JStr ''env''), (''value'', JStr ''prod'')]]))
   \<and> (\<exists>d2. patchStackTags exampleEnv
          (tagsManifest exampleEnv (JStr ''10.0.0'') (JArr [JObj [(''key'', JStr ''env''), (''value'', JStr ''prod'')]]))
          = Inr d2 \<and> patchStackTags exampleEnv d2 = Inr d2)"
proof -
  have run: "patchStackTags exampleEnv
     (tagsManifest exampleEnv (JStr ''10.0.0'') (JArr [JObj [(''Key'', JStr ''env''), (''Value'', JStr ''prod'')]]))
   = Inr (tagsManifest exampleEnv (JStr ''10.0.0'') (JArr [JObj [(''key'', JStr ''env''), (''value'', JStr ''prod'')]]))"
    by code_simp
  from normalizer_settles_after_second_pass [OF run] run show ?thesis by blast
qed

theorem normalizer_not_idempotent_counterexample:
  "patchStackTags exampleEnv
     (tagsManifest exampleEnv (JStr ''10.0.0'') (JArr [JObj [(''Key'', JStr ''env''), (''Value'', JStr ''prod'')]]))
   = Inr (tagsManifest exampleEnv (JStr ''10.0.0'') (JArr [JObj [(''key'', JStr ''env''), (''value'', JStr ''prod'')]]))
   \<and> patchStackTags exampleEnv
     (tagsManifest exampleEnv (JStr ''10.0.0'') (JArr [JObj [(''key'', JStr ''env''), (''value'', JStr ''prod'')]]))
   = Inr (tagsManifest exampleEnv (JStr ''10.0.0'') (JArr [JObj [(''key'', JUndefined), (''value'', JUndefined)]]))
   \<and> tagsManifest exampleEnv (JStr ''10.0.0'') (JArr [JObj [(''key'', JUndefined), (''value'', JUndefined)]])
     \<noteq> tagsManifest exampleEnv (JStr ''10.0.0'') (JArr [JObj [(''key'', JStr ''env''), (''value'', JStr ''prod'')]])"
  by code_simp

section \<open>Properties of the manifest protocol\<close>

subsection \<open>The version gate of load\<close>

lemma patchStackTags_version:
  assumes "patchStackTags E raw = Inr doc"
  shows "jsGet doc ''version'' = jsGet raw ''version''"
proof (cases raw)
  case (JObj ps)
  with assms show ?thesis
    by (auto simp: patchStackTags_def map_of_setProp split: sum.splits if_splits simp del: forValues.simps)
qed (use assms in \<open>auto simp: patchStackTags_def\<close>)

lemma parseVersion_error:
  "parseVersion E v = Inl e \<Longrightarrow> jsString v = Inr shown
     \<Longrightarrow> e = Error (''Invalid semver string: '' @ [CHR 0x22] @ shown @ [CHR 0x22])"
  by (auto simp: parseVersion_def invalidSemver_def split: option.splits if_splits)

lemma parseVersion_None: "semver_valid E v = None \<Longrightarrow> \<exists>e. parseVersion E v = Inl e"
  by (simp add: parseVersion_def)

text \<open>
  C1, as the code has it. The normaliser runs before any check and can itself throw, so the
  claim holds of the documents it completes on: when the version of such a document is a
  valid version strictly greater than the build's (itself a valid version), load fails with
  an error whose message begins with \<^verbatim>\<open>Cloud assembly schema version mismatch\<close>; when it
  is not greater and the normalised document passes schema validation, load succeeds and
  returns the normalised document.
\<close>

theorem load_version_gate:
  assumes "fs filePath = Some (JsonText raw)"
    and "patchStackTags E raw = Inr doc"
    and "parseVersion E (JStr (version E)) = Inr maxSupported"
    and "parseVersion E (jsGet raw ''version'') = Inr actual"
  shows "(semver_gt E actual maxSupported \<longrightarrow>
            (\<exists>msg. load E filePath fs = Inl (Error msg) \<and> prefix VERSION_MISMATCH msg))
       \<and> (\<not> semver_gt E actual maxSupported \<and> schema_errors E (JObj [(''manifest'', doc)]) = []
            \<longrightarrow> load E filePath fs = Inr doc)"
proof -
  from assms(2,4) have "parseVersion E (jsGet doc ''version'') = Inr actual"
    by (simp add: patchStackTags_version)
  with assms(1-3) show ?thesis
    by (simp add: load_def readFileSync_def Manifest_validate_def)
qed

theorem load_version_gate_witness:
  "(\<exists>msg. load exampleEnv ''manifest.json''
            [''manifest.json'' \<mapsto> JsonText (JObj [(''version'', JStr ''11.0.0''), (''artifacts'', JObj [])])]
          = Inl (Error msg) \<and> prefix VERSION_MISMATCH msg)
   \<and> load exampleEnv ''manifest.json''
        [''manifest.json'' \<mapsto> JsonText (JObj [(''version'', JStr ''9.2.0''), (''artifacts'', JObj [])])]
      = Inr (JObj [(''version'', JStr ''9.2.0''), (''artifacts'', JObj [])])"
proof -
  let ?newer = "JObj [(''version'', JStr ''11.0.0''), (''artifacts'', JObj [])]"
  let ?older = "JObj [(''version'', JStr ''9.2.0''), (''artifacts'', JObj [])]"
  have cur: "parseVersion exampleEnv (JStr (version exampleEnv)) = Inr ''10.0.0''" by code_simp
  have n1: "[''manifest.json'' \<mapsto> JsonText ?newer] ''manifest.json'' = Some (JsonText ?newer)" by simp
  have n2: "patchStackTags exampleEnv ?newer = Inr ?newer" by code_simp
  have n3: "parseVersion exampleEnv (jsGet ?newer ''version'') = Inr ''11.0.0''" by code_simp
  have n4: "semver_gt exampleEnv ''11.0.0'' ''10.0.0''" by code_simp
  have o1: "[''manifest.json'' \<mapsto> JsonText ?older] ''manifest.json'' = Some (JsonText ?older)" by simp
  have o2: "patchStackTags exampleEnv ?older = Inr ?older" by code_simp
  have o3: "parseVersion exampleEnv (jsGet ?older ''version'') = Inr ''9.2.0''" by code_simp
  have o4: "\<not> semver_gt exampleEnv ''9.2.0'' ''10.0.0''" by code_simp
  have o5: "schema_errors exampleEnv (JObj [(''manifest'', ?older)]) = []" by code_simp
  from load_version_gate [where fs = "[''manifest.json'' \<mapsto> JsonText ?newer]" and filePath = "''manifest.json''", OF n1 n2 cur n3] n4 load_version_gate [where fs = "[''manifest.json'' \<mapsto> JsonText ?older]" and filePath = "''manifest.json''", OF o1 o2 cur o3] o4 o5
  show ?thesis by blast
qed

theorem load_newer_document_counterexample:
  "parseVersion exampleEnv (JStr ''11.0.0'') = Inr ''11.0.0''
   \<and> semver_gt exampleEnv ''11.0.0'' (version exampleEnv)
   \<and> load exampleEnv ''manifest.json''
        [''manifest.json'' \<mapsto>
           JsonText (tagsManifest exampleEnv (JStr ''11.0.0'') (JObj [(''env'', JStr ''prod'')]))]
      = Inl TypeError"
  by code_simp

lemma patchStackTags_schema_errors:
  "patchStackTags (E\<lparr>schema_errors := sv\<rparr>) = patchStackTags E"
proof -
  have pe: "patchEntry (E\<lparr>schema_errors := sv\<rparr>) = patchEntry E"
    by (rule ext) (simp add: patchEntry_def cong: sum.case_cong)
  have pa: "patchArtifact (E\<lparr>schema_errors := sv\<rparr>) = patchArtifact E"
    by (rule ext) (simp add: patchArtifact_def pe cong: sum.case_cong json.case_cong if_cong)
  show ?thesis
    by (rule ext) (simp add: patchStackTags_def pa cong: sum.case_cong json.case_cong if_cong)
qed

lemma Manifest_validate_unparsed:
  assumes "parseVersion E v = Inl e" and "jsString v = Inr shown"
  shows "\<exists>msg. prefix ''Invalid semver string'' msg
           \<and> (\<forall>m. parseVersion E (JStr (version E)) = Inr m
                 \<longrightarrow> msg = ''Invalid semver string: '' @ [CHR 0x22] @ shown @ [CHR 0x22])
           \<and> (\<forall>sv. Manifest_validate (E\<lparr>schema_errors := sv\<rparr>) a v = Inl (Error msg))"
proof (cases "parseVersion E (JStr (version E))")
  case (Inl e0)
  have "jsString (JStr (version E)) = Inr (version E)" by simp
  from parseVersion_error [OF Inl this]
  have "e0 = Error (''Invalid semver string: '' @ [CHR 0x22] @ version E @ [CHR 0x22])" .
  with Inl show ?thesis by (auto simp: Manifest_validate_def parseVersion_def)
next
  case (Inr m)
  from parseVersion_error [OF assms]
  have "e = Error (''Invalid semver string: '' @ [CHR 0x22] @ shown @ [CHR 0x22])" .
  with Inr assms(1) show ?thesis by (auto simp: Manifest_validate_def parseVersion_def)
qed

lemma Manifest_validate_unrendered:
  assumes "semver_valid E v = None" and "jsString v = Inl e"
    and "parseVersion E (JStr (version E)) = Inr m"
  shows "Manifest_validate E a v = Inl e"
  using assms by (simp add: Manifest_validate_def parseVersion_def invalidSemver_def)

text \<open>
  C2, as the code has it. For a document on which the normaliser completes and whose
  version field is absent or not a valid version (\<^verbatim>\<open>semver.valid\<close> gives null on it): when
  the field can be printed in a message, load fails with the \<^verbatim>\<open>Invalid semver string\<close>
  error, which is neither the version-mismatch error nor a schema-validation error (it
  quotes the field when the build's own version is valid), and it does so whatever the
  schema validator would report: the version is parsed and compared before validation runs.
  When the field cannot be printed (an object with a \<^verbatim>\<open>toString\<close> field of its own) and the
  build's own version is valid, building the message throws, and load fails with that
  error.
\<close>

theorem load_invalid_version:
  assumes "fs filePath = Some (JsonText raw)"
    and "patchStackTags E raw = Inr doc"
    and "semver_valid E (jsGet raw ''version'') = None"
  shows "(\<forall>shown. jsString (jsGet raw ''version'') = Inr shown \<longrightarrow>
            (\<exists>msg. load E filePath fs = Inl (Error msg)
               \<and> prefix ''Invalid semver string'' msg
               \<and> \<not> prefix VERSION_MISMATCH msg
               \<and> \<not> prefix ''Invalid assembly manifest'' msg
               \<and> (\<forall>m. parseVersion E (JStr (version E)) = Inr m
                     \<longrightarrow> msg = ''Invalid semver string: '' @ [CHR 0x22] @ shown @ [CHR 0x22])
               \<and> (\<forall>sv. load (E\<lparr>schema_errors := sv\<rparr>) filePath fs = Inl (Error msg))))
       \<and> (\<forall>e m. jsString (jsGet raw ''version'') = Inl e
               \<and> parseVersion E (JStr (version E)) = Inr m
             \<longrightarrow> load E filePath fs = Inl e)"
proof (intro conjI allI impI)
  fix shown
  assume shown: "jsString (jsGet raw ''version'') = Inr shown"
  from assms(2,3) have none: "semver_valid E (jsGet doc ''version'') = None"
    by (simp add: patchStackTags_version)
  from assms(2) shown have shown': "jsString (jsGet doc ''version'') = Inr shown"
    by (simp add: patchStackTags_version)
  from parseVersion_None [OF none] obtain e where "parseVersion E (jsGet doc ''version'') = Inl e"
    by blast
  from Manifest_validate_unparsed [OF this shown', of "JObj [(''manifest'', doc)]"] obtain msg where
    p: "prefix ''Invalid semver string'' msg"
    and q: "\<forall>m. parseVersion E (JStr (version E)) = Inr m
               \<longrightarrow> msg = ''Invalid semver string: '' @ [CHR 0x22] @ shown @ [CHR 0x22]"
    and v: "\<And>sv. Manifest_validate (E\<lparr>schema_errors := sv\<rparr>) (JObj [(''manifest'', doc)])
              (jsGet doc ''version'') = Inl (Error msg)"
    by blast
  from p obtain rest where msg: "msg = ''Invalid semver string'' @ rest" by (auto simp: prefix_def)
  have np: "\<not> prefix VERSION_MISMATCH msg" "\<not> prefix ''Invalid assembly manifest'' msg"
    by (simp_all add: msg VERSION_MISMATCH_def)
  have all: "load (E\<lparr>schema_errors := sv\<rparr>) filePath fs = Inl (Error msg)" for sv
    using assms(1,2) v [of sv] by (simp add: load_def readFileSync_def patchStackTags_schema_errors)
  from all [of "schema_errors E"] have "load E filePath fs = Inl (Error msg)" by simp
  with p q np all
  show "\<exists>msg. load E filePath fs = Inl (Error msg)
               \<and> prefix ''Invalid semver string'' msg
               \<and> \<not> prefix VERSION_MISMATCH msg
               \<and> \<not> prefix ''Invalid assembly manifest'' msg
               \<and> (\<forall>m. parseVersion E (JStr (version E)) = Inr m
                     \<longrightarrow> msg = ''Invalid semver string: '' @ [CHR 0x22] @ shown @ [CHR 0x22])
               \<and> (\<forall>sv. load (E\<lparr>schema_errors := sv\<rparr>) filePath fs = Inl (Error msg))"
    by blast
next
  fix e m
  assume h: "jsString (jsGet raw ''version'') = Inl e
               \<and> parseVersion E (JStr (version E)) = Inr m"
  from assms(2,3) have none: "semver_valid E (jsGet doc ''version'') = None"
    by (simp add: patchStackTags_version)
  from assms(2) h have "jsString (jsGet doc ''version'') = Inl e"
    by (simp add: patchStackTags_version)
  from Manifest_validate_unrendered [OF none this, of m "JObj [(''manifest'', doc)]"] h
  have "Manifest_validate E (JObj [(''manifest'', doc)]) (jsGet doc ''version'') = Inl e" by simp
  with assms(1,2) show "load E filePath fs = Inl e"
    by (simp add: load_def readFileSync_def)
qed

theorem load_invalid_version_witness:
  "load exampleEnv ''manifest.json'' [''manifest.json'' \<mapsto> JsonText (JObj [(''artifacts'', JObj [])])]
     = Inl (Error (''Invalid semver string: '' @ [CHR 0x22] @ ''undefined'' @ [CHR 0x22]))
   \<and> load exampleEnv ''manifest.json''
        [''manifest.json'' \<mapsto> JsonText (JObj [(''version'', JStr ''latest''), (''artifacts'', JObj [])])]
     = Inl (Error (''Invalid semver string: '' @ [CHR 0x22] @ ''latest'' @ [CHR 0x22]))
   \<and> load exampleEnv ''manifest.json''
        [''manifest.json'' \<mapsto>
           JsonText (JObj [(''version'', JObj [(''toString'', JNum ''1'')]), (''artifacts'', JObj [])])]
     = Inl TypeError"
proof -
  let ?absent = "JObj [(''artifacts'', JObj [])]"
  let ?invalid = "JObj [(''version'', JStr ''latest''), (''artifacts'', JObj [])]"
  let ?opaque = "JObj [(''version'', JObj [(''toString'', JNum ''1'')]), (''artifacts'', JObj [])]"
  have cur: "parseVersion exampleEnv (JStr (version exampleEnv)) = Inr ''10.0.0''" by code_simp
  have a1: "[''manifest.json'' \<mapsto> JsonText ?absent] ''manifest.json'' = Some (JsonText ?absent)" by simp
  have a2: "patchStackTags exampleEnv ?absent = Inr ?absent" by code_simp
  have a3: "semver_valid exampleEnv (jsGet ?absent ''version'') = None" by code_simp
  have a4: "jsString (jsGet ?absent ''version'') = Inr ''undefined''" by simp
  have i1: "[''manifest.json'' \<mapsto> JsonText ?invalid] ''manifest.json'' = Some (JsonText ?invalid)" by simp
  have i2: "patchStackTags exampleEnv ?invalid = Inr ?invalid" by code_simp
  have i3: "semver_valid exampleEnv (jsGet ?invalid ''version'') = None" by code_simp
  have i4: "jsString (jsGet ?invalid ''version'') = Inr ''latest''" by simp
  have o1: "[''manifest.json'' \<mapsto> JsonText ?opaque] ''manifest.json'' = Some (JsonText ?opaque)" by simp
  have o2: "patchStackTags exampleEnv ?opaque = Inr ?opaque" by code_simp
  have o3: "semver_valid exampleEnv (jsGet ?opaque ''version'') = None" by code_simp
  have o4: "jsString (jsGet ?opaque ''version'') = Inl TypeError" by simp
  from load_invalid_version [where fs = "[''manifest.json'' \<mapsto> JsonText ?absent]"
      and filePath = "''manifest.json''", OF a1 a2 a3] a4 cur
  have a: "load exampleEnv ''manifest.json'' [''manifest.json'' \<mapsto> JsonText ?absent]
     = Inl (Error (''Invalid semver string: '' @ [CHR 0x22] @ ''undefined'' @ [CHR 0x22]))"
    by blast
  from load_invalid_version [where fs = "[''manifest.json'' \<mapsto> JsonText ?invalid]"
      and filePath = "''manifest.json''", OF i1 i2 i3] i4 cur
  have i: "load exampleEnv ''manifest.json'' [''manifest.json'' \<mapsto> JsonText ?invalid]
     = Inl (Error (''Invalid semver string: '' @ [CHR 0x22] @ ''latest'' @ [CHR 0x22]))"
    by blast
  from load_invalid_version [where fs = "[''manifest.json'' \<mapsto> JsonText ?opaque]"
      and filePath = "''manifest.json''", OF o1 o2 o3] o4 cur
  have "load exampleEnv ''manifest.json'' [''manifest.json'' \<mapsto> JsonText ?opaque] = Inl TypeError"
    by blast
  with a i show ?thesis by blast
qed

theorem load_unversioned_document_counterexample:
  "semver_valid exampleEnv
     (jsGet (JObj (tagsArtifacts exampleEnv (JObj [(''env'', JStr ''prod'')]))) ''version'') = None
   \<and> load exampleEnv ''manifest.json''
        [''manifest.json'' \<mapsto> JsonText (JObj (tagsArtifacts exampleEnv (JObj [(''env'', JStr ''prod'')])))]
      = Inl TypeError"
  by code_simp

subsection \<open>Asset manifests\<close>






subsection \<open>Validation failures\<close>

lemma sublist_renderLines:
  "e \<in> set es \<Longrightarrow> length is = length es
     \<Longrightarrow> sublist e (concat (map (\<lambda>(i, e). showNat i @ '': '' @ e @ [CHR 0x0A]) (zip is es)))"
proof (induction es arbitrary: "is")
  case Nil
  then show ?case by simp
next
  case (Cons x es)
  then obtain i js where "is": "is = i # js" and len: "length js = length es"
    by (cases "is") auto
  let ?line = "\<lambda>(i, e). showNat i @ '': '' @ e @ [CHR 0x0A]"
  show ?case
  proof (cases "e = x")
    case True
    have "sublist e ((showNat i @ '': '') @ e @ ([CHR 0x0A] @ concat (map ?line (zip js es))))"
      by (rule sublist_appendI)
    then show ?thesis by (simp add: "is" True)
  next
    case False
    with Cons.prems have "e \<in> set es" by simp
    from Cons.IH [OF this len] obtain ps ss where
      "concat (map ?line (zip js es)) = ps @ e @ ss" by (auto simp: sublist_def)
    then have "concat (map ?line (zip is (x # es))) = (?line (i, x) @ ps) @ e @ ss"
      by (simp add: "is")
    then show ?thesis unfolding sublist_def by blast
  qed
qed

lemma sublist_renderResult: "e \<in> set es \<Longrightarrow> sublist e (renderResult es)"
  unfolding renderResult_def by (rule sublist_renderLines) simp_all

lemma concat_map_nonempty: "x \<in> set xs \<Longrightarrow> f x \<noteq> [] \<Longrightarrow> concat (map f xs) \<noteq> []"
  by (induction xs) auto

lemma closed_grammar_rejects:
  assumes "map_of ps k = Some v" and "map_of props k = None"
  shows "schemaValidate (ObjectOf props required True) path (JObj ps) \<noteq> []"
proof -
  from assms(1) have "(k, v) \<in> set ps" by (rule map_of_SomeD)
  with assms(2) have "filter (\<lambda>(k, x). map_of props k = None) ps \<noteq> []"
    by (auto simp: filter_empty_conv)
  then show ?thesis by simp
qed

lemma nested_grammar_rejects:
  assumes "map_of props k = Some g" and "schemaValidate g (path @ ''.'' @ k) v \<noteq> []"
  shows "schemaValidate (ObjectOf props required closed) path (JObj [(k, v)]) \<noteq> []"
proof -
  from assms(1) have "(k, g) \<in> set props" by (rule map_of_SomeD)
  then have "concat (map (\<lambda>(k', g). case map_of [(k, v)] k' of None \<Rightarrow> []
                | Some x \<Rightarrow> schemaValidate g (path @ ''.'' @ k') x) props) \<noteq> []"
    by (rule concat_map_nonempty) (use assms(2) in simp)
  then show ?thesis by simp
qed

text \<open>
  C7. When the version checks pass and the validator reports errors, load fails with one
  error, \<^verbatim>\<open>Invalid assembly manifest\<close>, whose message holds every reported error, and returns
  no document. With the validator modelled from the spec, a manifest that carries a property
  its closed grammar does not declare is reported.
\<close>

theorem schema_failures_reported:
  assumes "fs filePath = Some (JsonText raw)"
    and "patchStackTags E raw = Inr doc"
    and "parseVersion E (JStr (version E)) = Inr maxSupported"
    and "parseVersion E (jsGet raw ''version'') = Inr actual"
    and "\<not> semver_gt E actual maxSupported"
  shows "(schema_errors E (JObj [(''manifest'', doc)]) \<noteq> [] \<longrightarrow>
            (\<exists>msg. load E filePath fs = Inl (Error msg)
               \<and> prefix ''Invalid assembly manifest'' msg
               \<and> (\<forall>e \<in> set (schema_errors E (JObj [(''manifest'', doc)])). sublist e msg)))
       \<and> (schema_errors E = schemaValidate (ObjectOf props required closed) path
            \<and> map_of props ''manifest'' = Some (ObjectOf mprops mrequired True)
            \<and> doc = JObj ps \<and> map_of ps k = Some v \<and> map_of mprops k = None
            \<longrightarrow> schema_errors E (JObj [(''manifest'', doc)]) \<noteq> [])"
proof (intro conjI impI)
  let ?es = "schema_errors E (JObj [(''manifest'', doc)])"
  let ?msg = "''Invalid assembly manifest:'' @ [CHR 0x0A] @ renderResult ?es"
  assume ne: "?es \<noteq> []"
  from assms(2,4) have "parseVersion E (jsGet doc ''version'') = Inr actual"
    by (simp add: patchStackTags_version)
  with assms ne have l: "load E filePath fs = Inl (Error ?msg)"
    by (simp add: load_def readFileSync_def Manifest_validate_def)
  have "sublist e ?msg" if "e \<in> set ?es" for e
  proof -
    from sublist_renderResult [OF that] obtain ps ss where "renderResult ?es = ps @ e @ ss"
      by (auto simp: sublist_def)
    then have "?msg = (''Invalid assembly manifest:'' @ [CHR 0x0A] @ ps) @ e @ ss" by simp
    then show ?thesis unfolding sublist_def by blast
  qed
  with l show "\<exists>msg. load E filePath fs = Inl (Error msg)
               \<and> prefix ''Invalid assembly manifest'' msg \<and> (\<forall>e \<in> set ?es. sublist e msg)"
    by auto
next
  assume h: "schema_errors E = schemaValidate (ObjectOf props required closed) path
            \<and> map_of props ''manifest'' = Some (ObjectOf mprops mrequired True)
            \<and> doc = JObj ps \<and> map_of ps k = Some v \<and> map_of mprops k = None"
  then have "schemaValidate (ObjectOf mprops mrequired True) (path @ ''.'' @ ''manifest'') doc \<noteq> []"
    using closed_grammar_rejects by blast
  with h show "schema_errors E (JObj [(''manifest'', doc)]) \<noteq> []"
    using nested_grammar_rejects by metis
qed

theorem schema_failures_reported_witness:
  "\<exists>msg. load exampleEnv ''manifest.json''
           [''manifest.json'' \<mapsto>
              JsonText (JObj [(''version'', JStr ''10.0.0''), (''artifacts'', JObj []), (''extra'', JNum ''1'')])]
         = Inl (Error msg)
       \<and> prefix ''Invalid assembly manifest'' msg
       \<and> sublist ''instance.manifest additionalProperty extra exists in instance when not allowed'' msg"
proof -
  let ?ps = "[(''version'', JStr ''10.0.0''), (''artifacts'', JObj []), (''extra'', JNum ''1'')]"
  let ?mprops = "[(''version'', StringValue), (''artifacts'', ObjectOf [] [] False)]"
  let ?props = "[(''manifest'', ObjectOf ?mprops [''version''] True),
        (''assets'',
           ObjectOf [(''version'', StringValue), (''files'', ObjectOf [] [] False)]
             [''version''] True)]"
  have h1: "[''manifest.json'' \<mapsto> JsonText (JObj ?ps)] ''manifest.json'' = Some (JsonText (JObj ?ps))"
    by simp
  have h2: "patchStackTags exampleEnv (JObj ?ps) = Inr (JObj ?ps)" by code_simp
  have h3: "parseVersion exampleEnv (JStr (version exampleEnv)) = Inr ''10.0.0''" by code_simp
  have h4: "parseVersion exampleEnv (jsGet (JObj ?ps) ''version'') = Inr ''10.0.0''" by code_simp
  have h5: "\<not> semver_gt exampleEnv ''10.0.0'' ''10.0.0''" by code_simp
  have g: "schema_errors exampleEnv = schemaValidate (ObjectOf ?props [] True) ''instance''
      \<and> map_of ?props ''manifest'' = Some (ObjectOf ?mprops [''version''] True)
      \<and> JObj ?ps = JObj ?ps \<and> map_of ?ps ''extra'' = Some (JNum ''1'') \<and> map_of ?mprops ''extra'' = None"
    by (simp add: exampleEnv_def exampleGrammar_def)
  have es: "''instance.manifest additionalProperty extra exists in instance when not allowed''
      \<in> set (schema_errors exampleEnv (JObj [(''manifest'', JObj ?ps)]))"
    by code_simp
  note T = schema_failures_reported [where fs = "[''manifest.json'' \<mapsto> JsonText (JObj ?ps)]"
        and filePath = "''manifest.json''", OF h1 h2 h3 h4 h5,
      where props = ?props and required = "[]" and closed = True and path = "''instance''"
        and mprops = ?mprops and mrequired = "[''version'']" and ps = ?ps and k = "''extra''"
        and v = "JNum ''1''"]
  from T g have "schema_errors exampleEnv (JObj [(''manifest'', JObj ?ps)]) \<noteq> []" by blast
  with T es show ?thesis by blast
qed

subsection \<open>Saving\<close>



lemma keys_setProp: "fst ` set (setProp ps k v) = insert k (fst ` set ps)"
proof (induction ps)
  case Nil
  then show ?case by simp
next
  case (Cons p ps)
  obtain k0 v0 where p: "p = (k0, v0)" by (cases p)
  from Cons.IH show ?case by (cases "k0 = k") (auto simp: p)
qed

lemma distinct_setProp: "distinct (map fst ps) \<Longrightarrow> distinct (map fst (setProp ps k v))"
  by (induction ps) (auto simp: keys_setProp)

lemma spread_keys:
  "distinct (map fst acc) \<Longrightarrow>
     distinct (map fst (spread acc d)) \<and> fst ` set acc \<subseteq> fst ` set (spread acc d)"
  unfolding spread_def
proof (induction d arbitrary: acc)
  case Nil
  then show ?case by simp
next
  case (Cons p d)
  obtain k v where p: "p = (k, v)" by (cases p)
  from Cons.IH [OF distinct_setProp [OF Cons.prems, of k v]] show ?case
    by (auto simp: p keys_setProp)
qed

lemma spread_map_of:
  "distinct (map fst d) \<Longrightarrow>
     map_of (spread acc d) k = (case map_of d k of None \<Rightarrow> map_of acc k | Some v \<Rightarrow> Some v)"
  unfolding spread_def
proof (induction d arbitrary: acc)
  case Nil
  then show ?case by simp
next
  case (Cons p d)
  obtain k0 v0 where p: "p = (k0, v0)" by (cases p)
  from Cons.prems have d: "distinct (map fst d)" and fresh: "k0 \<notin> fst ` set d" by (auto simp: p)
  from fresh have "map_of d k0 = None" by (simp add: map_of_eq_None_iff)
  with Cons.IH [OF d, of "setProp acc k0 v0"] show ?case
    by (auto simp: p map_of_setProp split: option.splits)
qed

lemma written_keys:
  "distinct (map fst ps)
     \<Longrightarrow> distinct (map fst (map (\<lambda>(k, v). (k, f v)) (filter (\<lambda>(k, v). Q v) ps)))"
proof (induction ps)
  case Nil
  then show ?case by simp
next
  case (Cons p ps)
  obtain k v where p: "p = (k, v)" by (cases p)
  from Cons show ?case by (force simp: p)
qed

lemma written_map_of:
  "distinct (map fst ps)
     \<Longrightarrow> map_of (map (\<lambda>(k, v). (k, f v)) (filter (\<lambda>(k, v). Q v) ps)) k
         = (case map_of ps k of None \<Rightarrow> None | Some v \<Rightarrow> if Q v then Some (f v) else None)"
proof (induction ps)
  case Nil
  then show ?case by simp
next
  case (Cons p ps)
  obtain k0 v0 where p: "p = (k0, v0)" by (cases p)
  from Cons.prems have d: "distinct (map fst ps)" and fresh: "k0 \<notin> fst ` set ps" by (auto simp: p)
  from fresh have none: "map_of ps k0 = None" by (simp add: map_of_eq_None_iff)
  from Cons.IH [OF d] none show ?case by (auto simp: p split: option.splits)
qed

lemma key_iff_map_of: "k \<in> set (map fst ps) \<longleftrightarrow> map_of ps k \<noteq> None"
  by (simp add: map_of_eq_None_iff)

text \<open>
  C5, as the code has it. Save writes to the file the JSON encoding of a new object. Every
  field of the input other than \<^verbatim>\<open>version\<close> is in the file as JSON encodes it (a field
  holding \<^verbatim>\<open>undefined\<close> is left out), and no field is there twice. The version in the file
  is the build's current version when the input has no version field, and the input's own
  version when it has one: in \<^verbatim>\<open>{ version: Manifest.version(), ...manifest }\<close> the caller's
  field is assigned last. It is there exactly once, unless the input's own version holds
  \<^verbatim>\<open>undefined\<close>: then the file has none. No other file changes, and the objects that
  existed before the call, the caller's manifest among them, are as they were.
\<close>

theorem save_stamps_version:
  assumes "distinct (map fst d)"
  shows "\<exists>w. save E d p fs p = Some (JsonText (JObj w))
           \<and> distinct (map fst w)
           \<and> (''version'' \<in> set (map fst w) \<longleftrightarrow> map_of d ''version'' \<noteq> Some JUndefined)
           \<and> jsGet (JObj w) ''version''
               = (case map_of d ''version'' of None \<Rightarrow> JStr (version E) | Some v \<Rightarrow> serialized v)
           \<and> (\<forall>k. k \<noteq> ''version'' \<longrightarrow> jsGet (JObj w) k = serialized (jsGet (JObj d) k))
           \<and> (\<forall>q. q \<noteq> p \<longrightarrow> save E d p fs q = fs q)
           \<and> (\<forall>h r. r < length h \<and> h ! r = d \<longrightarrow>
                 take (length h) (fst (saveCall E r p (h, fs))) = h
                 \<and> snd (saveCall E r p (h, fs)) = save E d p fs)"
proof -
  let ?ps = "spread [(''version'', JStr (version E))] d"
  let ?w = "map (\<lambda>(k, v). (k, serialized v)) (filter (\<lambda>(k, v). v \<noteq> JUndefined) ?ps)"
  have dps: "distinct (map fst ?ps)"
    using spread_keys [of "[(''version'', JStr (version E))]" d] by simp
  have mps: "map_of ?ps k
      = (case map_of d k of None \<Rightarrow> map_of [(''version'', JStr (version E))] k | Some v \<Rightarrow> Some v)" for k
    by (rule spread_map_of [OF assms])
  have mw: "map_of ?w k
      = (case map_of ?ps k of None \<Rightarrow> None
         | Some v \<Rightarrow> if v \<noteq> JUndefined then Some (serialized v) else None)" for k
    by (rule written_map_of [OF dps])
  have written: "save E d p fs p = Some (JsonText (JObj ?w))"
    by (simp add: save_def writeFileSync_def JSON_stringify_def)
  have dw: "distinct (map fst ?w)" by (rule written_keys [OF dps])
  have once: "''version'' \<in> set (map fst ?w) \<longleftrightarrow> map_of d ''version'' \<noteq> Some JUndefined"
    unfolding key_iff_map_of mw mps by (auto split: option.splits)
  have ver: "jsGet (JObj ?w) ''version''
      = (case map_of d ''version'' of None \<Rightarrow> JStr (version E) | Some v \<Rightarrow> serialized v)"
    unfolding jsGet.simps mw mps by (auto split: option.splits)
  have rest: "jsGet (JObj ?w) k = serialized (jsGet (JObj d) k)" if "k \<noteq> ''version''" for k
    unfolding jsGet.simps mw mps using that by (auto split: option.splits)
  have other: "save E d p fs q = fs q" if "q \<noteq> p" for q
    using that by (simp add: save_def writeFileSync_def)
  have call: "take (length h) (fst (saveCall E r p (h, fs))) = h
      \<and> snd (saveCall E r p (h, fs)) = save E d p fs" if "r < length h \<and> h ! r = d" for h r
    using that by (simp add: saveCall_def save_def Let_def)
  from written dw once ver rest other call show ?thesis by blast
qed

theorem save_stamps_version_witness:
  "distinct (map fst [(''artifacts'', JObj [])])
   \<and> (\<exists>w. save exampleEnv [(''artifacts'', JObj [])] ''manifest.json'' Map.empty ''manifest.json''
            = Some (JsonText (JObj w))
          \<and> distinct (map fst w)
          \<and> ''version'' \<in> set (map fst w)
          \<and> jsGet (JObj w) ''version'' = JStr ''10.0.0''
          \<and> jsGet (JObj w) ''artifacts'' = JObj [])
   \<and> take 1 (fst (saveCall exampleEnv 0 ''manifest.json'' ([[(''artifacts'', JObj [])]], Map.empty)))
       = [[(''artifacts'', JObj [])]]"
proof -
  let ?d = "[(''artifacts'', JObj [])]"
  have d: "distinct (map fst ?d)" by simp
  have v: "version exampleEnv = ''10.0.0''" by (simp add: exampleEnv_def)
  from save_stamps_version [OF d, of exampleEnv "''manifest.json''" Map.empty] obtain w where
    w: "save exampleEnv ?d ''manifest.json'' Map.empty ''manifest.json'' = Some (JsonText (JObj w))"
    "distinct (map fst w)"
    "''version'' \<in> set (map fst w) \<longleftrightarrow> map_of ?d ''version'' \<noteq> Some JUndefined"
    "jsGet (JObj w) ''version''
       = (case map_of ?d ''version'' of None \<Rightarrow> JStr (version exampleEnv) | Some v \<Rightarrow> serialized v)"
    "\<forall>k. k \<noteq> ''version'' \<longrightarrow> jsGet (JObj w) k = serialized (jsGet (JObj ?d) k)"
    and call: "\<forall>h r. r < length h \<and> h ! r = ?d \<longrightarrow>
                 take (length h) (fst (saveCall exampleEnv r ''manifest.json'' (h, Map.empty))) = h
                 \<and> snd (saveCall exampleEnv r ''manifest.json'' (h, Map.empty))
                   = save exampleEnv ?d ''manifest.json'' Map.empty"
    by blast
  from w(3) have w3: "''version'' \<in> set (map fst w)" by simp
  from w(4) have w4: "jsGet (JObj w) ''version'' = JStr ''10.0.0''" by (simp add: v)
  from w(5) have "jsGet (JObj w) ''artifacts'' = serialized (jsGet (JObj ?d) ''artifacts'')" by simp
  then have w5: "jsGet (JObj w) ''artifacts'' = JObj []" by simp
  from call have "0 < length [?d] \<and> [?d] ! 0 = ?d \<longrightarrow>
      take (length [?d]) (fst (saveCall exampleEnv 0 ''manifest.json'' ([?d], Map.empty))) = [?d]"
    by blast
  then have c: "take 1 (fst (saveCall exampleEnv 0 ''manifest.json'' ([?d], Map.empty))) = [?d]"
    by simp
  from d w(1,2) w3 w4 w5 c show ?thesis by blast
qed

theorem save_keeps_callers_version_counterexample:
  "save exampleEnv [(''version'', JStr ''0.0.1''), (''artifacts'', JObj [])] ''manifest.json''
      Map.empty ''manifest.json''
     = Some (JsonText (JObj [(''version'', JStr ''0.0.1''), (''artifacts'', JObj [])]))
   \<and> version exampleEnv = ''10.0.0''"
  by code_simp




section \<open>Properties of the version comparator\<close>

lemma compareIdentifiers_flip: "compareIdentifiers x y = - compareIdentifiers y x"
  by (cases x; cases y) (auto simp: compareNum_def)

lemma compareIdentifiers_zero: "compareIdentifiers x y = 0 \<longleftrightarrow> x = y"
  by (cases x; cases y) (auto simp: compareNum_def)

lemma compareIdentifiers_pos: "compareIdentifiers x y > 0 \<longleftrightarrow> compareIdentifiers x y = 1"
  by (cases x; cases y) (auto simp: compareNum_def)

lemma compareIdentifiers_trans:
  "compareIdentifiers x y = 1 \<Longrightarrow> compareIdentifiers y z = 1 \<Longrightarrow> compareIdentifiers x z = 1"
  by (cases x; cases y; cases z) (auto simp: compareNum_def split: if_splits)

lemma compareTags_flip: "compareTags xs ys = - compareTags ys xs"
proof (induction xs ys rule: compareTags.induct)
  case (4 x xs y ys)
  then show ?case
    using compareIdentifiers_flip [of x y] by (auto simp: compareIdentifiers_zero)
qed auto

lemma compareTags_zero: "compareTags xs ys = 0 \<longleftrightarrow> xs = ys"
  by (induction xs ys rule: compareTags.induct) (auto simp: compareIdentifiers_zero)

lemma compareTags_pos: "compareTags xs ys > 0 \<longleftrightarrow> compareTags xs ys = 1"
  by (induction xs ys rule: compareTags.induct) (auto simp: compareIdentifiers_pos)

lemma compareTags_trans:
  "compareTags xs ys = 1 \<Longrightarrow> compareTags ys zs = 1 \<Longrightarrow> compareTags xs zs = 1"
proof (induction xs ys arbitrary: zs rule: compareTags.induct)
  case (2 x xs)
  then show ?case by (cases zs) auto
next
  case (4 x xs y ys)
  show ?case
  proof (cases zs)
    case Nil
    then show ?thesis by simp
  next
    case zs: (Cons z zs')
    show ?thesis
    proof (cases "compareIdentifiers x y = 0")
      case xy: True
      then have "x = y" by (simp add: compareIdentifiers_zero)
      with 4 xy zs show ?thesis by (auto split: if_splits)
    next
      case xy: False
      with "4.prems"(1) have xy1: "compareIdentifiers x y = 1" by simp
      show ?thesis
      proof (cases "compareIdentifiers y z = 0")
        case True
        then have "y = z" by (simp add: compareIdentifiers_zero)
        with xy xy1 zs show ?thesis by simp
      next
        case False
        with "4.prems"(2) zs have "compareIdentifiers y z = 1" by simp
        from compareIdentifiers_trans [OF xy1 this] zs show ?thesis by simp
      qed
    qed
  qed
qed auto

lemma compareMain_pos:
  "compareMain a b > 0 \<longleftrightarrow>
     major a > major b
     \<or> (major a = major b \<and> minor a > minor b)
     \<or> (major a = major b \<and> minor a = minor b \<and> patch a > patch b)"
  by (auto simp: compareMain_def compareNum_def)

lemma compareMain_zero:
  "compareMain a b = 0 \<longleftrightarrow> major a = major b \<and> minor a = minor b \<and> patch a = patch b"
  by (auto simp: compareMain_def compareNum_def)

lemma comparePre_pos:
  "comparePre a b > 0 \<longleftrightarrow>
     (prerelease a = [] \<and> prerelease b \<noteq> [])
     \<or> (prerelease a \<noteq> [] \<and> prerelease b \<noteq> [] \<and> compareTags (prerelease a) (prerelease b) = 1)"
  by (auto simp: comparePre_def compareTags_pos)

lemma compareGreaterThan_iff:
  "compareGreaterThan a b \<longleftrightarrow>
     compareMain a b > 0 \<or> (compareMain a b = 0 \<and> comparePre a b > 0)"
  by (auto simp: compareGreaterThan_def semverCompare_def)

lemma compareGreaterThan_irrefl: "\<not> compareGreaterThan a a"
  using compareTags_zero [of "prerelease a" "prerelease a"]
  by (auto simp: compareGreaterThan_iff compareMain_pos comparePre_pos)

lemma compareGreaterThan_trans:
  assumes "compareGreaterThan a b" and "compareGreaterThan b c"
  shows "compareGreaterThan a c"
proof -
  have pre: "comparePre a c > 0" if "comparePre a b > 0" "comparePre b c > 0"
    using that compareTags_trans [of "prerelease a" "prerelease b" "prerelease c"]
    by (auto simp: comparePre_pos)
  from assms pre show ?thesis
    unfolding compareGreaterThan_iff compareMain_pos compareMain_zero by auto
qed

lemma compareGreaterThan_total: "compareGreaterThan a b \<or> compareGreaterThan b a \<or> a = b"
proof -
  have tags: "compareTags p q = 1 \<or> compareTags q p = 1 \<or> p = q" for p q
    using compareTags_flip [of p q] compareTags_zero [of p q] compareTags_pos [of p q]
      compareTags_pos [of q p] by auto
  have "comparePre a b > 0 \<or> comparePre b a > 0 \<or> prerelease a = prerelease b"
    using tags [of "prerelease a" "prerelease b"] by (auto simp: comparePre_pos)
  moreover have "a = b" if "major a = major b" "minor a = minor b" "patch a = patch b"
      "prerelease a = prerelease b"
    using that by (cases a; cases b) simp
  ultimately show ?thesis
    unfolding compareGreaterThan_iff compareMain_pos compareMain_zero by force
qed

text \<open>
  C9. On versions as modelled from the spec, compareGreaterThan is a strict total order
  (irreflexive, transitive, and any two distinct versions are ordered), it holds exactly
  when the first version is later by numeric major, minor and patch comparison and then by
  pre-release comparison, and \<^verbatim>\<open>gt\<close> is that order on the parsed strings: 2.0.0 > 1.9.9,
  1.2.0 > 1.1.9 and 1.0.0-beta < 1.0.0.
\<close>

theorem compareGreaterThan_strict_total_order:
  "\<not> compareGreaterThan a a
   \<and> (compareGreaterThan a b \<and> compareGreaterThan b c \<longrightarrow> compareGreaterThan a c)
   \<and> (compareGreaterThan a b \<or> compareGreaterThan b a \<or> a = b)
   \<and> (compareGreaterThan a b \<longleftrightarrow>
         major a > major b
         \<or> (major a = major b \<and> minor a > minor b)
         \<or> (major a = major b \<and> minor a = minor b \<and> patch a > patch b)
         \<or> (major a = major b \<and> minor a = minor b \<and> patch a = patch b \<and> comparePre a b > 0))
   \<and> (gt s t \<longleftrightarrow> (\<exists>x y. parse s = Some x \<and> parse t = Some y \<and> compareGreaterThan x y))
   \<and> gt ''2.0.0'' ''1.9.9'' \<and> gt ''1.2.0'' ''1.1.9''
   \<and> gt ''1.0.0'' ''1.0.0-beta'' \<and> \<not> gt ''1.0.0-beta'' ''1.0.0''"
proof -
  have ex: "gt ''2.0.0'' ''1.9.9'' \<and> gt ''1.2.0'' ''1.1.9''
      \<and> gt ''1.0.0'' ''1.0.0-beta'' \<and> \<not> gt ''1.0.0-beta'' ''1.0.0''"
    by code_simp
  have str: "gt s t \<longleftrightarrow> (\<exists>x y. parse s = Some x \<and> parse t = Some y \<and> compareGreaterThan x y)"
    by (auto simp: gt_def split: option.splits)
  have num: "compareGreaterThan a b \<longleftrightarrow>
         major a > major b
         \<or> (major a = major b \<and> minor a > minor b)
         \<or> (major a = major b \<and> minor a = minor b \<and> patch a > patch b)
         \<or> (major a = major b \<and> minor a = minor b \<and> patch a = patch b \<and> comparePre a b > 0)"
    unfolding compareGreaterThan_iff compareMain_pos compareMain_zero by auto
  from ex str num compareGreaterThan_irrefl [of a] compareGreaterThan_total [of a b]
    compareGreaterThan_trans [of a b c]
  show ?thesis by blast
qed

theorem compareGreaterThan_strict_total_order_witness:
  "compareGreaterThan (SemVer 2 0 0 []) (SemVer 1 9 9 [])
   \<and> compareGreaterThan (SemVer 1 9 9 []) (SemVer 1 0 0 [Alnum ''beta''])
   \<and> compareGreaterThan (SemVer 2 0 0 []) (SemVer 1 0 0 [Alnum ''beta''])
   \<and> parse ''2.0.0'' = Some (SemVer 2 0 0 [])
   \<and> parse ''1.0.0-beta'' = Some (SemVer 1 0 0 [Alnum ''beta''])
   \<and> gt ''2.0.0'' ''1.0.0-beta''"
proof -
  have a: "compareGreaterThan (SemVer 2 0 0 []) (SemVer 1 9 9 [])" by code_simp
  have b: "compareGreaterThan (SemVer 1 9 9 []) (SemVer 1 0 0 [Alnum ''beta''])" by code_simp
  have p: "parse ''2.0.0'' = Some (SemVer 2 0 0 [])"
    "parse ''1.0.0-beta'' = Some (SemVer 1 0 0 [Alnum ''beta''])" by code_simp+
  from compareGreaterThan_strict_total_order
    [of "SemVer 2 0 0 []" "SemVer 1 9 9 []" "SemVer 1 0 0 [Alnum ''beta'']"
        "''2.0.0''" "''1.0.0-beta''"] a b p
  show ?thesis by blast
qed

end
